theory Spec2Isabelle
  imports Main "HOL-Library.AList" "HOL-Library.Char_ord" "HOL-Library.List_Lexorder"
begin

section \<open>Values: JSON documents, dictionaries, exceptions\<close>

text \<open>
  The tap handles decoded JSON throughout: configuration, request parameters, API
  responses and records are Python dicts, lists, strings, integers, booleans and None.
  A Python dict keeps its keys in insertion order and replaces the value of a key that
  is already present in place; an association list updated with \<open>AList.update\<close> does
  the same. \<open>JNull\<close> is Python's None. Floating-point numbers, which the code never
  computes with, are left out.
\<close>

datatype json =
    JNull
  | JBool bool
  | JInt int
  | JStr string
  | JList "json list"
  | JObj "(string \<times> json) list"

type_synonym dict = "(string \<times> json) list"

text \<open>
  Exceptions are values. \<open>ScriptEnd\<close> is not a Python exception: it is how a run is cut
  off when the finite script of network attempts that drives the model is used up.
\<close>

datatype error =
    RuntimeError string
  | TypeError
  | AttributeError
  | KeyError string
  | ParserError
  | OverflowError
  | SchemaError
  | JSONDecodeError
  | HTTPError nat
  | ConnectionError
  | Timeout
  | ScriptEnd

text \<open>\<open>d.get(k)\<close>: the value, or None when the key is absent.\<close>

definition dict_get :: "dict \<Rightarrow> string \<Rightarrow> json" where
  "dict_get d k = (case map_of d k of None \<Rightarrow> JNull | Some v \<Rightarrow> v)"

text \<open>\<open>d[k]\<close>: the value, or KeyError.\<close>

definition dict_item :: "dict \<Rightarrow> string \<Rightarrow> error + json" where
  "dict_item d k = (case map_of d k of None \<Rightarrow> Inl (KeyError k) | Some v \<Rightarrow> Inr v)"

text \<open>\<open>d.update(other)\<close>: the pairs of \<open>other\<close> are stored one after the other.\<close>

definition dict_update :: "dict \<Rightarrow> dict \<Rightarrow> dict" where
  "dict_update d other = foldl (\<lambda>acc kv. AList.update (fst kv) (snd kv) acc) d other"

text \<open>\<open>x.get(k)\<close> on an arbitrary value: only a dict has the method.\<close>

definition py_get :: "json \<Rightarrow> string \<Rightarrow> error + json" where
  "py_get x k = (case x of JObj d \<Rightarrow> Inr (dict_get d k) | _ \<Rightarrow> Inl AttributeError)"

text \<open>\<open>x[k]\<close> with a string key on an arbitrary value.\<close>

definition py_item :: "json \<Rightarrow> string \<Rightarrow> error + json" where
  "py_item x k = (case x of JObj d \<Rightarrow> dict_item d k | _ \<Rightarrow> Inl TypeError)"

text \<open>
  Python's \<open>+\<close> on the values that occur: integers (booleans count as 0 and 1) add,
  strings and lists concatenate, every other pairing raises TypeError.
\<close>

fun py_add :: "json \<Rightarrow> json \<Rightarrow> error + json" where
  "py_add (JInt a) (JInt b) = Inr (JInt (a + b))"
| "py_add (JInt a) (JBool b) = Inr (JInt (a + of_bool b))"
| "py_add (JBool a) (JInt b) = Inr (JInt (of_bool a + b))"
| "py_add (JBool a) (JBool b) = Inr (JInt (of_bool a + of_bool b))"
| "py_add (JStr a) (JStr b) = Inr (JStr (a @ b))"
| "py_add (JList a) (JList b) = Inr (JList (a @ b))"
| "py_add _ _ = Inl TypeError"

text \<open>
  The elements a \<open>for\<close> loop or \<open>list.extend\<close> takes from a value: the items of a list,
  the characters of a string, the keys of a dict; None, booleans and integers are not
  iterable.
\<close>

definition py_iter :: "json \<Rightarrow> error + json list" where
  "py_iter x = (case x of
       JList xs \<Rightarrow> Inr xs
     | JStr s \<Rightarrow> Inr (map (\<lambda>c. JStr [c]) s)
     | JObj d \<Rightarrow> Inr (map (\<lambda>kv. JStr (fst kv)) d)
     | _ \<Rightarrow> Inl TypeError)"

text \<open>
  Python's \<open>+=\<close>: a list is extended by the elements of any iterable; otherwise as \<open>+\<close>.
\<close>

definition py_iadd :: "json \<Rightarrow> json \<Rightarrow> error + json" where
  "py_iadd x y =
     (case x of
        JList xs \<Rightarrow> (case py_iter y of Inl e \<Rightarrow> Inl e | Inr ys \<Rightarrow> Inr (JList (xs @ ys)))
      | _ \<Rightarrow> py_add x y)"

text \<open>Truth value of a value, as \<open>not x\<close> reads it.\<close>

definition py_truthy :: "json \<Rightarrow> bool" where
  "py_truthy x = (case x of
       JNull \<Rightarrow> False
     | JBool b \<Rightarrow> b
     | JInt n \<Rightarrow> n \<noteq> 0
     | JStr s \<Rightarrow> s \<noteq> []
     | JList xs \<Rightarrow> xs \<noteq> []
     | JObj d \<Rightarrow> d \<noteq> [])"

section \<open>Timestamps\<close>

text \<open>
  A timezone-aware \<open>datetime\<close>: the instant in microseconds since 1970-01-01T00:00:00
  UTC, and the UTC offset of its tzinfo in minutes. Aware datetimes compare by instant;
  adding a \<open>timedelta\<close> (here a number of microseconds) keeps the offset. A datetime's
  local date lies in the years 1 to 9999, and an addition that leaves that range raises
  OverflowError. Naive datetimes are outside the model.
\<close>

record datetime =
  instant :: int
  utcoff :: int

definition timedelta_days :: "int \<Rightarrow> int" where
  "timedelta_days n = n * 86400000000"

definition local_time :: "datetime \<Rightarrow> int" where
  "local_time d = instant d + utcoff d * 60000000"

definition dt_add :: "datetime \<Rightarrow> int \<Rightarrow> error + datetime" where
  "dt_add d delta =
     (let l = local_time d + delta
      in if timedelta_days (- 719162) \<le> l \<and> l < timedelta_days 2932897
         then Inr (d\<lparr>instant := instant d + delta\<rparr>)
         else Inl OverflowError)"

text \<open>The proleptic Gregorian date (year, month, day) of a day number counted from 1970-01-01.\<close>

definition civil_from_days :: "int \<Rightarrow> int \<times> int \<times> int" where
  "civil_from_days z0 =
     (let z = z0 + 719468;
          era = z div 146097;
          doe = z mod 146097;
          yoe = (doe - doe div 1460 + doe div 36524 - doe div 146096) div 365;
          doy = doe - (365 * yoe + yoe div 4 - yoe div 100);
          mp = (5 * doy + 2) div 153;
          d = doy - (153 * mp + 2) div 5 + 1;
          m = (if mp < 10 then mp + 3 else mp - 9);
          y = yoe + era * 400 + (if m \<le> 2 then 1 else 0)
      in (y, m, d))"

definition digit :: "int \<Rightarrow> char" where
  "digit n = ''0123456789'' ! nat (n mod 10)"

fun zpad :: "nat \<Rightarrow> int \<Rightarrow> string" where
  "zpad 0 n = []"
| "zpad (Suc w) n = zpad w (n div 10) @ [digit n]"

text \<open>
  \<open>datetime.isoformat()\<close>: \<open>YYYY-MM-DDTHH:MM:SS\<close>, then \<open>.ffffff\<close> when the microsecond
  is not zero, then the offset as \<open>+HH:MM\<close> or \<open>-HH:MM\<close>.
\<close>

definition isoformat :: "datetime \<Rightarrow> string" where
  "isoformat d =
     (let l = local_time d;
          ymd = civil_from_days (l div 86400000000);
          r = l mod 86400000000;
          s = r div 1000000;
          us = r mod 1000000;
          a = \<bar>utcoff d\<bar>
      in zpad 4 (fst ymd) @ ''-'' @ zpad 2 (fst (snd ymd)) @ ''-'' @ zpad 2 (snd (snd ymd))
         @ ''T'' @ zpad 2 (s div 3600) @ '':'' @ zpad 2 (s div 60 mod 60) @ '':'' @ zpad 2 (s mod 60)
         @ (if us = 0 then [] else ''.'' @ zpad 6 us)
         @ (if utcoff d < 0 then ''-'' else ''+'') @ zpad 2 (a div 60) @ '':'' @ zpad 2 (a mod 60))"

section \<open>The world: network, clock, request log, dictionaries on the heap\<close>

text \<open>
  The HTTP transport is outside the program. A run is driven by a script: the outcomes of
  the successive calls of \<open>requests.get\<close>, each with the time the call takes and the random
  number the backoff library draws for the sleep before it when it is a retry (both in
  microseconds). The script is finite; a call made when it is used up ends the run with
  \<open>ScriptEnd\<close>. \<open>Response st body\<close> is an HTTP response with status \<open>st\<close>, whose body
  decodes to the JSON object \<open>body\<close> (\<open>None\<close> when it does not decode).
\<close>

datatype net_outcome = Response nat "dict option" | ConnFail | TimedOut

record attempt =
  outcome :: net_outcome
  took :: nat
  draw :: nat

text \<open>
  A request URL is kept as the parts of the f-string that builds it: the stream's endpoint
  \<open>/{tap_stream_id}\<close>, or the sub-resource \<open>/{tap_stream_id}/{record.get('id')}/{name}\<close>.
\<close>

datatype url = Endpoint string | SubEndpoint string json string

text \<open>
  \<open>requested\<close> logs every call of \<open>_get\<close>: the URL and the parameters as they are at the
  call. \<open>heap\<close> holds the parameter dicts, which the program shares by reference and
  mutates in place; \<open>next_ref\<close> is the next free reference. \<open>clock\<close> is the wall clock in
  microseconds since 1970-01-01T00:00:00 UTC. \<open>bookmarks\<close> is the \<open>bookmarks\<close> entry of
  the Singer state: stream id to replication key to value.
\<close>

record world =
  script :: "attempt list"
  clock :: int
  requested :: "(url \<times> dict) list"
  heap :: "nat \<Rightarrow> dict"
  next_ref :: nat
  bookmarks :: "(string \<times> dict) list"

section \<open>The retrying fetcher\<close>

definition is_fatal_code :: "nat \<Rightarrow> bool" where
  "is_fatal_code status_code = (400 \<le> status_code \<and> status_code < 500 \<and> status_code \<noteq> 429)"

text \<open>\<open>response.raise_for_status()\<close> raises HTTPError for the statuses 400 to 599.\<close>

definition raise_for_status :: "nat \<Rightarrow> error option" where
  "raise_for_status st = (if 400 \<le> st \<and> st < 600 then Some (HTTPError st) else None)"

text \<open>The undecorated body of \<open>_get\<close>, run on one network attempt.\<close>

definition get_once :: "attempt \<Rightarrow> error + dict" where
  "get_once a =
     (case outcome a of
        ConnFail \<Rightarrow> Inl ConnectionError
      | TimedOut \<Rightarrow> Inl Timeout
      | Response st body \<Rightarrow>
          (case raise_for_status st of
             Some e \<Rightarrow> Inl e
           | None \<Rightarrow> (case body of None \<Rightarrow> Inl JSONDecodeError | Some d \<Rightarrow> Inr d)))"

text \<open>
  \<open>backoff.on_exception(backoff.fibo, exc, max_time=120, giveup=g)\<close> wraps a function in
  a loop. The loop notes the time at its start; each round it reads the time elapsed since
  then and calls the function. When the call raises one of \<open>exc\<close>, the loop re-raises if
  \<open>g\<close> holds of the exception or the elapsed time read at the start of the round has reached
  \<open>max_time\<close>; otherwise it sleeps and goes round again. The sleep is a random number between
  0 and the next value of the Fibonacci generator (1, 1, 2, 3, 5, ... seconds), and never
  longer than \<open>max_time\<close> less the elapsed time.
\<close>

definition max_time :: int where
  "max_time = 120000000"

fun fibo :: "nat \<Rightarrow> nat" where
  "fibo 0 = 1"
| "fibo (Suc 0) = 1"
| "fibo (Suc (Suc n)) = fibo n + fibo (Suc n)"

definition next_draw :: "attempt list \<Rightarrow> nat" where
  "next_draw as = (case as of [] \<Rightarrow> 0 | a # _ \<Rightarrow> draw a)"

definition next_wait :: "nat \<Rightarrow> nat \<Rightarrow> int \<Rightarrow> int" where
  "next_wait n drawn elapsed = min (int (min drawn (fibo n * 1000000))) (max_time - elapsed)"

text \<open>
  The inner decorator of \<open>_get\<close>: retries ConnectionError and Timeout, never gives up
  early. \<open>start\<close> is the time the loop began, \<open>n\<close> the number of sleeps so far, \<open>now\<close> the
  time at the start of the round. The result is the script that is left, the time at
  the end, and the value returned or the exception raised.
\<close>

fun retry_network :: "int \<Rightarrow> nat \<Rightarrow> attempt list \<Rightarrow> int \<Rightarrow> attempt list \<times> int \<times> (error + dict)" where
  "retry_network start n [] now = ([], now, Inl ScriptEnd)"
| "retry_network start n (a # rest) now =
     (let elapsed = now - start;
          after = now + int (took a)
      in case get_once a of
           Inr d \<Rightarrow> (rest, after, Inr d)
         | Inl e \<Rightarrow>
             if e = ConnectionError \<or> e = Timeout then
               (if max_time \<le> elapsed then (rest, after, Inl e)
                else retry_network start (Suc n) rest (after + next_wait n (next_draw rest) elapsed))
             else (rest, after, Inl e))"

lemma retry_network_length:
  "retry_network start n as now = (rest, after, r) \<Longrightarrow> length rest \<le> length as"
proof (induction start n as now arbitrary: rest after r rule: retry_network.induct)
  case (1 start n now)
  then show ?case by simp
next
  case (2 start n a rest' now)
  show ?case
  proof (cases "get_once a")
    case (Inr d)
    with "2.prems" show ?thesis by (simp add: Let_def)
  next
    case (Inl e)
    show ?thesis
    proof (cases "(e = ConnectionError \<or> e = Timeout) \<and> \<not> max_time \<le> now - start")
      case True
      then have "retry_network start (Suc n) rest'
                   (now + int (took a) + next_wait n (next_draw rest') (now - start)) = (rest, after, r)"
        using "2.prems" Inl by (auto simp: Let_def)
      then have "length rest \<le> length rest'"
        using "2.IH" [OF refl refl Inl] True by blast
      then show ?thesis by simp
    next
      case False
      with "2.prems" Inl show ?thesis by (auto simp: Let_def split: if_splits)
    qed
  qed
qed

lemma retry_network_consumes:
  "retry_network start n as now = (rest, after, r) \<Longrightarrow> r \<noteq> Inl ScriptEnd \<Longrightarrow> length rest < length as"
proof (cases as)
  case Nil
  then show "retry_network start n as now = (rest, after, r) \<Longrightarrow> r \<noteq> Inl ScriptEnd \<Longrightarrow> ?thesis"
    by simp
next
  case (Cons a rest')
  assume run: "retry_network start n as now = (rest, after, r)" and "r \<noteq> Inl ScriptEnd"
  show ?thesis
  proof (cases "get_once a")
    case (Inr d)
    with run Cons show ?thesis by (simp add: Let_def)
  next
    case (Inl e)
    show ?thesis
    proof (cases "(e = ConnectionError \<or> e = Timeout) \<and> \<not> max_time \<le> now - start")
      case True
      then have "retry_network start (Suc n) rest'
                   (now + int (took a) + next_wait n (next_draw rest') (now - start)) = (rest, after, r)"
        using run Cons Inl by (auto simp: Let_def)
      then have "length rest \<le> length rest'" by (rule retry_network_length)
      then show ?thesis using Cons by simp
    next
      case False
      with run Cons Inl show ?thesis by (auto simp: Let_def split: if_splits)
    qed
  qed
qed

text \<open>
  The outer decorator: retries HTTPError unless \<open>is_fatal_code\<close> holds of it. Each round
  calls the inner loop afresh, which starts its own clock and its own Fibonacci sequence.
\<close>

function retry_http :: "int \<Rightarrow> nat \<Rightarrow> attempt list \<Rightarrow> int \<Rightarrow> attempt list \<times> int \<times> (error + dict)" where
  "retry_http start n as now =
     (let elapsed = now - start
      in case retry_network now 0 as now of
           (rest, after, Inr d) \<Rightarrow> (rest, after, Inr d)
         | (rest, after, Inl (HTTPError st)) \<Rightarrow>
             if is_fatal_code st \<or> max_time \<le> elapsed then (rest, after, Inl (HTTPError st))
             else retry_http start (Suc n) rest (after + next_wait n (next_draw rest) elapsed)
         | (rest, after, Inl e) \<Rightarrow> (rest, after, Inl e))"
  by pat_completeness auto
termination
  by (relation "measure (\<lambda>(start, n, as, now). length as)")
     (auto dest: retry_network_consumes [OF sym])

declare retry_http.simps [simp del]

lemma retry_http_length:
  "retry_http start n as now = (rest, after, r) \<Longrightarrow> length rest \<le> length as"
proof (induction start n as now arbitrary: rest after r rule: retry_http.induct)
  case (1 start n as now)
  obtain rest1 after1 r1 where rn: "retry_network now 0 as now = (rest1, after1, r1)"
    by (cases "retry_network now 0 as now") auto
  have le1: "length rest1 \<le> length as" using rn by (rule retry_network_length)
  show ?case
  proof (cases "\<exists>st. r1 = Inl (HTTPError st) \<and> \<not> (is_fatal_code st \<or> max_time \<le> now - start)")
    case True
    then obtain st where st: "r1 = Inl (HTTPError st)" "\<not> (is_fatal_code st \<or> max_time \<le> now - start)"
      by blast
    have "retry_http start (Suc n) rest1 (after1 + next_wait n (next_draw rest1) (now - start)) = (rest, after, r)"
      using "1.prems" rn st by (subst (asm) retry_http.simps) (simp add: Let_def)
    then have "length rest \<le> length rest1"
      using "1.IH" [OF refl rn [symmetric] refl st(1) refl] st(2) by simp
    with le1 show ?thesis by simp
  next
    case False
    then have "rest = rest1"
      using "1.prems" rn
      by (subst (asm) retry_http.simps) (auto simp: Let_def split: sum.splits error.splits if_splits)
    with le1 show ?thesis by simp
  qed
qed

lemma retry_http_consumes:
  "retry_http start n as now = (rest, after, Inr d) \<Longrightarrow> length rest < length as"
proof (induction start n as now arbitrary: rest after rule: retry_http.induct)
  case (1 start n as now)
  obtain rest1 after1 r1 where rn: "retry_network now 0 as now = (rest1, after1, r1)"
    by (cases "retry_network now 0 as now") auto
  show ?case
  proof (cases "\<exists>st. r1 = Inl (HTTPError st) \<and> \<not> (is_fatal_code st \<or> max_time \<le> now - start)")
    case True
    then obtain st where st: "r1 = Inl (HTTPError st)" "\<not> (is_fatal_code st \<or> max_time \<le> now - start)"
      by blast
    have "retry_http start (Suc n) rest1 (after1 + next_wait n (next_draw rest1) (now - start)) = (rest, after, Inr d)"
      using "1.prems" rn st by (subst (asm) retry_http.simps) (simp add: Let_def)
    then have "length rest \<le> length rest1" by (rule retry_http_length)
    moreover have "length rest1 < length as"
      using rn st(1) by (auto dest: retry_network_consumes)
    ultimately show ?thesis by simp
  next
    case False
    then have "rest = rest1" "r1 = Inr d"
      using "1.prems" rn
      by (subst (asm) retry_http.simps; auto simp: Let_def split: sum.splits error.splits if_splits)+
    then show ?thesis using rn by (auto dest: retry_network_consumes)
  qed
qed

text \<open>
  \<open>_get\<close>: one logged request, carried out by the two retry loops on the script.
\<close>

definition PagerdutyStream_get :: "url \<Rightarrow> dict \<Rightarrow> world \<Rightarrow> world \<times> (error + dict)" where
  "PagerdutyStream_get url_suffix ps w =
     (case retry_http (clock w) 0 (script w) (clock w) of
        (rest, after, r) \<Rightarrow>
          (w\<lparr>script := rest, clock := after, requested := requested w @ [(url_suffix, ps)]\<rparr>, r))"

lemma PagerdutyStream_get_length:
  "PagerdutyStream_get u ps w = (w1, r) \<Longrightarrow> length (script w1) \<le> length (script w)"
  by (auto simp: PagerdutyStream_get_def split: prod.splits dest: retry_http_length)

lemma PagerdutyStream_get_consumes:
  "PagerdutyStream_get u ps w = (w1, Inr d) \<Longrightarrow> length (script w1) < length (script w)"
  by (auto simp: PagerdutyStream_get_def split: prod.splits dest: retry_http_consumes)

section \<open>The paginator\<close>

text \<open>
  A \<open>PagerdutyResponse\<close> holds the URL, a reference to the parameter dict it was given
  (the caller's own dict, not a copy), the current response and the iteration count.
\<close>

record PagerdutyResponse =
  pr_url_suffix :: url
  pr_params :: nat
  pr_response :: dict
  pr_iteration :: nat

text \<open>\<open>_list_resource\<close>: the first request, made with the parameters as they are.\<close>

definition PagerdutyStream_list_resource :: "url \<Rightarrow> nat \<Rightarrow> world \<Rightarrow> world \<times> (error + PagerdutyResponse)" where
  "PagerdutyStream_list_resource url_suffix ref w =
     (case PagerdutyStream_get url_suffix (heap w ref) w of
        (w1, Inl e) \<Rightarrow> (w1, Inl e)
      | (w1, Inr response) \<Rightarrow>
          (w1, Inr \<lparr>pr_url_suffix = url_suffix, pr_params = ref,
                    pr_response = response, pr_iteration = 0\<rparr>))"

definition PagerdutyResponse_iter :: "PagerdutyResponse \<Rightarrow> PagerdutyResponse" where
  "PagerdutyResponse_iter pr = pr\<lparr>pr_iteration := 0\<rparr>"

text \<open>\<open>self.params["offset"] += self.params["limit"]\<close>\<close>

definition bump_offset :: "dict \<Rightarrow> error + dict" where
  "bump_offset ps =
     (case dict_item ps ''offset'' of
        Inl e \<Rightarrow> Inl e
      | Inr off \<Rightarrow>
          (case dict_item ps ''limit'' of
             Inl e \<Rightarrow> Inl e
           | Inr lim \<Rightarrow>
               (case py_iadd off lim of
                  Inl e \<Rightarrow> Inl e
                | Inr v \<Rightarrow> Inr (AList.update ''offset'' v ps))))"

datatype 'a step = Yield 'a | StopIteration | Raise error

text \<open>
  \<open>__next__\<close>. The first call hands out the response the object was built with; later
  calls stop unless \<open>more\<close> is the boolean true, and otherwise advance the offset in the
  shared parameter dict and fetch again.
\<close>

definition PagerdutyResponse_next :: "PagerdutyResponse \<Rightarrow> world \<Rightarrow> world \<times> PagerdutyResponse step" where
  "PagerdutyResponse_next pr w =
     (let it = pr_iteration pr + 1
      in if it = 1 then (w, Yield (pr\<lparr>pr_iteration := it\<rparr>))
         else if dict_get (pr_response pr) ''more'' = JBool False then (w, StopIteration)
         else if dict_get (pr_response pr) ''more'' = JBool True then
           (case bump_offset (heap w (pr_params pr)) of
              Inl e \<Rightarrow> (w, Raise e)
            | Inr ps \<Rightarrow>
                (case PagerdutyStream_get (pr_url_suffix pr) ps
                        (w\<lparr>heap := (heap w)(pr_params pr := ps)\<rparr>) of
                   (w1, Inl e) \<Rightarrow> (w1, Raise e)
                 | (w1, Inr response) \<Rightarrow>
                     (w1, Yield (pr\<lparr>pr_iteration := it, pr_response := response\<rparr>))))
         else (w, StopIteration))"

lemma next_length:
  "PagerdutyResponse_next pr w = (w1, x) \<Longrightarrow> length (script w1) \<le> length (script w)"
  by (auto simp: PagerdutyResponse_next_def Let_def
           split: if_splits sum.splits prod.splits dest: PagerdutyStream_get_length)

lemma next_first:
  "pr_iteration pr = 0 \<Longrightarrow> PagerdutyResponse_next pr w = (w, Yield (pr\<lparr>pr_iteration := 1\<rparr>))"
  by (simp add: PagerdutyResponse_next_def)

lemma next_later:
  "pr_iteration pr \<noteq> 0 \<Longrightarrow> PagerdutyResponse_next pr w = (w1, Yield pr1) \<Longrightarrow>
     length (script w1) < length (script w)"
  by (auto simp: PagerdutyResponse_next_def Let_def
           split: if_splits sum.splits prod.splits dest: PagerdutyStream_get_consumes)

lemma next_iteration:
  "PagerdutyResponse_next pr w = (w1, Yield pr1) \<Longrightarrow> pr_iteration pr1 = pr_iteration pr + 1"
  by (auto simp: PagerdutyResponse_next_def Let_def split: if_splits sum.splits prod.splits)

lemma next_measure:
  assumes "PagerdutyResponse_next pr w = (w1, Yield pr1)" "length (script w2) \<le> length (script w1)"
  shows "length (script w2) < length (script w) \<or>
         length (script w2) = length (script w) \<and> pr_iteration pr1 \<noteq> 0 \<and> pr_iteration pr = 0"
proof (cases "pr_iteration pr = 0")
  case True
  then show ?thesis using assms next_iteration [OF assms(1)] next_length [OF assms(1)] by auto
next
  case False
  then show ?thesis using next_later [OF False assms(1)] assms(2) by simp
qed

text \<open>
  \<open>for page in response: body\<close>, for a body that works on local values only: \<open>acc\<close> is
  what the body reads and changes, and the body returns it with the exception it raised,
  if any.
\<close>

function for_pages :: "(dict \<Rightarrow> 'a \<Rightarrow> 'a \<times> error option) \<Rightarrow> PagerdutyResponse \<Rightarrow> 'a \<Rightarrow> world
                         \<Rightarrow> world \<times> 'a \<times> error option" where
  "for_pages body pr acc w =
     (case PagerdutyResponse_next pr w of
        (w1, StopIteration) \<Rightarrow> (w1, acc, None)
      | (w1, Raise e) \<Rightarrow> (w1, acc, Some e)
      | (w1, Yield pr1) \<Rightarrow>
          (case body (pr_response pr1) acc of
             (acc1, Some e) \<Rightarrow> (w1, acc1, Some e)
           | (acc1, None) \<Rightarrow> for_pages body pr1 acc1 w1))"
  by pat_completeness auto
termination
  by (relation "measures [\<lambda>(body, pr, acc, w). length (script w),
                          \<lambda>(body, pr, acc, w). if pr_iteration pr = 0 then 1 else 0]")
     (auto dest: next_measure [OF sym order_refl])

declare for_pages.simps [simp del]

lemma for_pages_length:
  "for_pages body pr acc w = (w', acc', err) \<Longrightarrow> length (script w') \<le> length (script w)"
proof (induction body pr acc w rule: for_pages.induct)
  case (1 body pr acc w)
  obtain w1 x where nx: "PagerdutyResponse_next pr w = (w1, x)"
    by (cases "PagerdutyResponse_next pr w") auto
  have le: "length (script w1) \<le> length (script w)" using nx by (rule next_length)
  show ?case
  proof (cases x)
    case (Yield pr1)
    obtain acc1 r where b: "body (pr_response pr1) acc = (acc1, r)"
      by (cases "body (pr_response pr1) acc") auto
    show ?thesis
    proof (cases r)
      case None
      then have "for_pages body pr1 acc1 w1 = (w', acc', err)"
        using "1.prems" nx Yield b by (subst (asm) for_pages.simps) simp
      then have "length (script w') \<le> length (script w1)"
        using "1.IH" [OF nx [symmetric] Yield b [symmetric] None] by simp
      with le show ?thesis by simp
    next
      case (Some e)
      then have "w' = w1" using "1.prems" nx Yield b by (subst (asm) for_pages.simps) simp
      with le show ?thesis by simp
    qed
  next
    case StopIteration
    then have "w' = w1" using "1.prems" nx by (subst (asm) for_pages.simps) simp
    with le show ?thesis by simp
  next
    case (Raise e)
    then have "w' = w1" using "1.prems" nx by (subst (asm) for_pages.simps) simp
    with le show ?thesis by simp
  qed
qed

text \<open>\<open>for page in self._list_resource(url_suffix, params): body\<close>\<close>

definition for_resource :: "(dict \<Rightarrow> 'a \<Rightarrow> 'a \<times> error option) \<Rightarrow> url \<Rightarrow> nat \<Rightarrow> 'a \<Rightarrow> world
                             \<Rightarrow> world \<times> 'a \<times> error option" where
  "for_resource body url_suffix ref acc w =
     (case PagerdutyStream_list_resource url_suffix ref w of
        (w1, Inl e) \<Rightarrow> (w1, acc, Some e)
      | (w1, Inr pages) \<Rightarrow> for_pages body (PagerdutyResponse_iter pages) acc w1)"

section \<open>Streams and their construction\<close>

datatype stream_id =
    Incidents | EscalationPolicies | Services | Notifications | Schedules | Users | Oncalls

fun tap_stream_id :: "stream_id \<Rightarrow> string" where
  "tap_stream_id Incidents = ''incidents''"
| "tap_stream_id EscalationPolicies = ''escalation_policies''"
| "tap_stream_id Services = ''services''"
| "tap_stream_id Notifications = ''notifications''"
| "tap_stream_id Schedules = ''schedules''"
| "tap_stream_id Users = ''users''"
| "tap_stream_id Oncalls = ''oncalls''"

fun valid_params :: "stream_id \<Rightarrow> string list" where
  "valid_params Incidents =
     [''since'', ''until'', ''date_range'', ''statuses[]'', ''incident_key'', ''service_ids[]'',
      ''team_ids[]'', ''user_ids[]'', ''urgencies[]'', ''time_zone'', ''sort_by'', ''include[]'']"
| "valid_params EscalationPolicies =
     [''user_ids[]'', ''team_ids[]'', ''sort_by'', ''query'', ''include[]'']"
| "valid_params Services = [''team_ids[]'', ''time_zone'', ''sort_by'', ''query'', ''include[]'']"
| "valid_params Notifications = [''time_zone'', ''since'', ''until'', ''filter'', ''include'']"
| "valid_params Schedules = [''include[]'', ''query'']"
| "valid_params Users = [''include[]'', ''team_ids[]'', ''query'']"
| "valid_params Oncalls =
     [''since'', ''until'', ''time_zone'', ''earliest'', ''user_ids[]'', ''schedule_ids[]'',
      ''escalation_policy_ids[]'']"

fun required_params :: "stream_id \<Rightarrow> string list" where
  "required_params Incidents = [''since'', ''until'']"
| "required_params Notifications = [''since'', ''until'']"
| "required_params Oncalls = [''since'', ''until'']"
| "required_params _ = []"

text \<open>Only the three incremental streams have a replication key.\<close>

fun replication_key :: "stream_id \<Rightarrow> string" where
  "replication_key Incidents = ''created_at''"
| "replication_key Notifications = ''started_at''"
| "replication_key Oncalls = ''start''"

text \<open>
  The stream object, as far as the sync uses it: which stream it is and where its
  parameter dict \<open>self.params\<close> lives.
\<close>

record stream =
  st_id :: stream_id
  st_params :: nat

text \<open>
  The checks of \<open>__init__\<close> are written over the two class attributes they read, so
  that they can be stated for any accepted and required parameter lists.
\<close>

fun check_keys :: "string \<Rightarrow> string list \<Rightarrow> string list \<Rightarrow> error option" where
  "check_keys sid valid [] = None"
| "check_keys sid valid (key # keys) =
     (if key \<notin> set valid
      then Some (RuntimeError (''/'' @ sid @ '' endpoint does not support '' @ [CHR 0x27] @ key
                               @ [CHR 0x27] @ '' parameter.''))
      else check_keys sid valid keys)"

fun check_required :: "string \<Rightarrow> string \<Rightarrow> string list \<Rightarrow> dict \<Rightarrow> error + dict" where
  "check_required sid now [] ps = Inr ps"
| "check_required sid now (param # rest) ps =
     (if param \<notin> set (map fst ps) then
        (if param = ''until''
         then check_required sid now rest (dict_update ps [(''until'', JStr now)])
         else Inl (RuntimeError (''Parameter '' @ [CHR 0x27] @ param @ [CHR 0x27]
                                 @ '' required but not supplied for /'' @ sid @ '' endpoint.'')))
      else check_required sid now rest ps)"

text \<open>
  The parameter dict \<open>__init__\<close> starts from, and the overrides
  \<open>config.get('streams', {}).get(self.tap_stream_id)\<close>.
\<close>

definition base_params :: "dict \<Rightarrow> dict" where
  "base_params config =
     [(''limit'', (case map_of config ''limit'' of None \<Rightarrow> JInt 100 | Some v \<Rightarrow> v)),
      (''offset'', JInt 0),
      (''since'', dict_get config ''since''),
      (''time_zone'', JStr ''UTC'')]"

definition stream_overrides :: "dict \<Rightarrow> string \<Rightarrow> error + json" where
  "stream_overrides config sid =
     py_get (case map_of config ''streams'' of None \<Rightarrow> JObj [] | Some v \<Rightarrow> v) sid"

text \<open>
  The parameter dict \<open>__init__\<close> ends with, or the exception it raises.
  \<open>now\<close> is \<open>datetime.now(timezone.utc).isoformat()\<close>.
\<close>

definition init_params :: "string \<Rightarrow> string list \<Rightarrow> string list \<Rightarrow> dict \<Rightarrow> string \<Rightarrow> error + dict" where
  "init_params sid valid required config now =
     (case stream_overrides config sid of
        Inl e \<Rightarrow> Inl e
      | Inr JNull \<Rightarrow> check_required sid now required (base_params config)
      | Inr (JObj config_stream_params) \<Rightarrow>
          (case check_keys sid valid (map fst config_stream_params) of
             Some e \<Rightarrow> Inl e
           | None \<Rightarrow>
               check_required sid now required (dict_update (base_params config) config_stream_params))
      | Inr _ \<Rightarrow> Inl AttributeError)"

text \<open>
  \<open>__init__\<close>: on success the parameter dict is stored on the heap and the stream object
  refers to it; on failure the world is left as it was.
\<close>

definition PagerdutyStream_init :: "stream_id \<Rightarrow> dict \<Rightarrow> world \<Rightarrow> world \<times> (error + stream)" where
  "PagerdutyStream_init sid config w =
     (case init_params (tap_stream_id sid) (valid_params sid) (required_params sid) config
             (isoformat \<lparr>instant = clock w, utcoff = 0\<rparr>) of
        Inl e \<Rightarrow> (w, Inl e)
      | Inr ps \<Rightarrow>
          (w\<lparr>heap := (heap w)(next_ref w := ps), next_ref := next_ref w + 1\<rparr>,
           Inr \<lparr>st_id = sid, st_params = next_ref w\<rparr>))"

section \<open>Records, the bookmark filter and emission\<close>

text \<open>
  The two collaborators the sync is given: \<open>dateutil.parser.parse\<close> on a string (None
  when it raises), and the schema transformation of a record.
\<close>

record collab =
  parse :: "string \<Rightarrow> datetime option"
  transform :: "json \<Rightarrow> error + json"

definition py_parse :: "collab \<Rightarrow> json \<Rightarrow> error + datetime" where
  "py_parse C v =
     (case v of
        JStr s \<Rightarrow> (case parse C s of None \<Rightarrow> Inl ParserError | Some d \<Rightarrow> Inr d)
      | _ \<Rightarrow> Inl TypeError)"

text \<open>
  What a sync has done so far: the calls of \<open>singer.write_record\<close>, each as the record
  handed to the transformer and the transformed record written, and the running bookmark.
\<close>

record sync_state =
  sink :: "(json \<times> json) list"
  running :: "datetime option"

text \<open>\<open>max(a, b)\<close> on aware datetimes keeps \<open>a\<close> unless \<open>b\<close> is later.\<close>

definition dt_max :: "datetime \<Rightarrow> datetime \<Rightarrow> datetime" where
  "dt_max a b = (if instant a < instant b then b else a)"

definition update_bookmark :: "datetime option \<Rightarrow> datetime \<Rightarrow> datetime" where
  "update_bookmark bookmark v = (case bookmark of None \<Rightarrow> v | Some b \<Rightarrow> dt_max b v)"

text \<open>
  \<open>(current_bookmark_dtime is None) or (record_replication_key_dtime >= current_bookmark_dtime)\<close>
\<close>

definition passes :: "datetime option \<Rightarrow> datetime \<Rightarrow> bool" where
  "passes current k = (case current of None \<Rightarrow> True | Some b \<Rightarrow> instant b \<le> instant k)"

text \<open>Transform, write the record, advance the running bookmark.\<close>

definition emit :: "collab \<Rightarrow> json \<Rightarrow> datetime \<Rightarrow> sync_state \<Rightarrow> sync_state \<times> error option" where
  "emit C r k st =
     (case transform C r of
        Inl e \<Rightarrow> (st, Some e)
      | Inr t \<Rightarrow> (st\<lparr>sink := sink st @ [(r, t)],
                     running := Some (update_bookmark (running st) k)\<rparr>, None))"

text \<open>The body of the record loop of the full-table streams.\<close>

definition process_full_table :: "collab \<Rightarrow> json \<Rightarrow> sync_state \<Rightarrow> sync_state \<times> error option" where
  "process_full_table C r st =
     (case transform C r of
        Inl e \<Rightarrow> (st, Some e)
      | Inr t \<Rightarrow> (st\<lparr>sink := sink st @ [(r, t)]\<rparr>, None))"

text \<open>The body of the record loop of \<open>NotificationsStream.sync\<close>.\<close>

definition process_notification :: "collab \<Rightarrow> datetime option \<Rightarrow> json \<Rightarrow> sync_state
                                     \<Rightarrow> sync_state \<times> error option" where
  "process_notification C current r st =
     (case py_get r ''started_at'' of
        Inl e \<Rightarrow> (st, Some e)
      | Inr v \<Rightarrow>
          (case py_parse C v of
             Inl e \<Rightarrow> (st, Some e)
           | Inr k \<Rightarrow> if passes current k then emit C r k st else (st, None)))"

text \<open>
  The body of the record loop of \<open>OncallsStream.sync\<close>: a record without \<open>start\<close> is
  passed over; otherwise its \<open>id\<close> is set before the filter.
\<close>

definition oncall_id :: "json \<Rightarrow> error + json" where
  "oncall_id r =
     (case py_item r ''schedule'' of
        Inl e \<Rightarrow> Inl e
      | Inr sched \<Rightarrow>
          (case py_item sched ''id'' of
             Inl e \<Rightarrow> Inl e
           | Inr sid \<Rightarrow>
               (case py_item r ''start'' of
                  Inl e \<Rightarrow> Inl e
                | Inr s \<Rightarrow>
                    (case py_add sid s of
                       Inl e \<Rightarrow> Inl e
                     | Inr a \<Rightarrow>
                         (case py_item r ''end'' of
                            Inl e \<Rightarrow> Inl e
                          | Inr en \<Rightarrow> py_add a en)))))"

definition set_item :: "json \<Rightarrow> string \<Rightarrow> json \<Rightarrow> error + json" where
  "set_item r k v = (case r of JObj d \<Rightarrow> Inr (JObj (AList.update k v d)) | _ \<Rightarrow> Inl TypeError)"

definition process_oncall :: "collab \<Rightarrow> datetime option \<Rightarrow> json \<Rightarrow> sync_state
                               \<Rightarrow> sync_state \<times> error option" where
  "process_oncall C current r st =
     (case py_get r ''start'' of
        Inl e \<Rightarrow> (st, Some e)
      | Inr v \<Rightarrow>
          if \<not> py_truthy v then (st, None)
          else
            (case oncall_id r of
               Inl e \<Rightarrow> (st, Some e)
             | Inr i \<Rightarrow>
                 (case set_item r ''id'' i of
                    Inl e \<Rightarrow> (st, Some e)
                  | Inr r1 \<Rightarrow>
                      (case py_parse C v of
                         Inl e \<Rightarrow> (st, Some e)
                       | Inr k \<Rightarrow> if passes current k then emit C r1 k st else (st, None)))))"

text \<open>
  The body of the record loop of \<open>IncidentsStream.sync\<close>. \<open>substream_params\<close> is one new
  dict per record, handed to both sub-resource paginations. The first pagination
  collects the log entries. In the second, each page's alerts are appended and then, still
  inside the page loop, the record is filtered and emitted.
\<close>

definition substream_params :: dict where
  "substream_params = [(''limit'', JInt 100), (''offset'', JInt 0), (''time_zone'', JStr ''UTC'')]"

definition extend_field :: "string \<Rightarrow> dict \<Rightarrow> json \<Rightarrow> json \<times> error option" where
  "extend_field name page r =
     (case py_item r name of
        Inl e \<Rightarrow> (r, Some e)
      | Inr (JList old) \<Rightarrow>
          (case py_iter (dict_get page name) of
             Inl e \<Rightarrow> (r, Some e)
           | Inr items \<Rightarrow>
               (case set_item r name (JList (old @ items)) of
                  Inl e \<Rightarrow> (r, Some e)
                | Inr r1 \<Rightarrow> (r1, None)))
      | Inr _ \<Rightarrow> (r, Some AttributeError))"

definition alerts_body :: "collab \<Rightarrow> datetime option \<Rightarrow> datetime \<Rightarrow> dict \<Rightarrow> json \<times> sync_state
                            \<Rightarrow> (json \<times> sync_state) \<times> error option" where
  "alerts_body C current k page acc =
     (case extend_field ''alerts'' page (fst acc) of
        (r1, Some e) \<Rightarrow> ((r1, snd acc), Some e)
      | (r1, None) \<Rightarrow>
          if passes current k
          then (case emit C r1 k (snd acc) of (st1, err) \<Rightarrow> ((r1, st1), err))
          else ((r1, snd acc), None))"

definition process_incident :: "collab \<Rightarrow> datetime option \<Rightarrow> json \<Rightarrow> sync_state \<Rightarrow> world
                                 \<Rightarrow> world \<times> sync_state \<times> error option" where
  "process_incident C current r st w =
     (case py_get r ''created_at'' of
        Inl e \<Rightarrow> (w, st, Some e)
      | Inr v \<Rightarrow>
     (case py_parse C v of
        Inl e \<Rightarrow> (w, st, Some e)
      | Inr k \<Rightarrow>
     (let ref = next_ref w;
          w1 = w\<lparr>heap := (heap w)(ref := substream_params), next_ref := ref + 1\<rparr>
      in
     (case set_item r ''log_entries'' (JList []) of
        Inl e \<Rightarrow> (w1, st, Some e)
      | Inr r1 \<Rightarrow>
     (case py_get r1 ''id'' of
        Inl e \<Rightarrow> (w1, st, Some e)
      | Inr i1 \<Rightarrow>
     (case for_resource (extend_field ''log_entries'')
             (SubEndpoint ''incidents'' i1 ''log_entries'') ref r1 w1 of
        (w3, r2, Some e) \<Rightarrow> (w3, st, Some e)
      | (w3, r2, None) \<Rightarrow>
     (case set_item r2 ''alerts'' (JList []) of
        Inl e \<Rightarrow> (w3, st, Some e)
      | Inr r3 \<Rightarrow>
     (case py_get r3 ''id'' of
        Inl e \<Rightarrow> (w3, st, Some e)
      | Inr i3 \<Rightarrow>
     (case for_resource (alerts_body C current k)
             (SubEndpoint ''incidents'' i3 ''alerts'') ref (r3, st) w3 of
        (w5, acc, err) \<Rightarrow> (w5, snd acc, err))))))))))"

lemma list_resource_length:
  "PagerdutyStream_list_resource u ref w = (w1, r) \<Longrightarrow> length (script w1) \<le> length (script w)"
  by (auto simp: PagerdutyStream_list_resource_def split: prod.splits sum.splits
           dest: PagerdutyStream_get_length)

lemma list_resource_consumes:
  "PagerdutyStream_list_resource u ref w = (w1, Inr pr) \<Longrightarrow> length (script w1) < length (script w)"
  by (auto simp: PagerdutyStream_list_resource_def split: prod.splits sum.splits
           dest: PagerdutyStream_get_consumes)

lemma for_resource_length:
  "for_resource body u ref acc w = (w', acc', err) \<Longrightarrow> length (script w') \<le> length (script w)"
  unfolding for_resource_def
  by (auto split: prod.splits sum.splits dest!: list_resource_length for_pages_length)

lemma process_incident_length:
  assumes "process_incident C current r st w = (w', st', err)"
  shows "length (script w') \<le> length (script w)"
proof -
  define w1 where "w1 = w\<lparr>heap := (heap w)(next_ref w := substream_params), next_ref := next_ref w + 1\<rparr>"
  have s1: "script w1 = script w" by (simp add: w1_def)
  have fp: "\<And>(body :: dict \<Rightarrow> json \<Rightarrow> json \<times> error option) u acc wa wb acc' x.
               for_resource body u (next_ref w) acc wa = (wb, acc', x)
               \<Longrightarrow> length (script wb) \<le> length (script wa)"
    by (rule for_resource_length)
  have fq: "\<And>(body :: dict \<Rightarrow> json \<times> sync_state \<Rightarrow> (json \<times> sync_state) \<times> error option) u acc wa wb acc' x.
               for_resource body u (next_ref w) acc wa = (wb, acc', x)
               \<Longrightarrow> length (script wb) \<le> length (script wa)"
    by (rule for_resource_length)
  show ?thesis
    using assms s1 unfolding process_incident_def Let_def w1_def [symmetric]
    by (auto split: sum.splits prod.splits option.splits dest!: fp fq)
qed

section \<open>The sync loops\<close>

text \<open>
  The body of \<open>for record in page.get(self.tap_stream_id)\<close>, by stream. The four
  full-table streams share one body.
\<close>

definition process_record :: "collab \<Rightarrow> stream_id \<Rightarrow> datetime option \<Rightarrow> json \<Rightarrow> sync_state \<Rightarrow> world
                               \<Rightarrow> world \<times> sync_state \<times> error option" where
  "process_record C sid current r st w =
     (case sid of
        Incidents \<Rightarrow> process_incident C current r st w
      | Notifications \<Rightarrow> (case process_notification C current r st of (st1, err) \<Rightarrow> (w, st1, err))
      | Oncalls \<Rightarrow> (case process_oncall C current r st of (st1, err) \<Rightarrow> (w, st1, err))
      | _ \<Rightarrow> (case process_full_table C r st of (st1, err) \<Rightarrow> (w, st1, err)))"

fun sync_records :: "collab \<Rightarrow> stream_id \<Rightarrow> datetime option \<Rightarrow> json list \<Rightarrow> sync_state \<Rightarrow> world
                      \<Rightarrow> world \<times> sync_state \<times> error option" where
  "sync_records C sid current [] st w = (w, st, None)"
| "sync_records C sid current (r # rs) st w =
     (case process_record C sid current r st w of
        (w1, st1, Some e) \<Rightarrow> (w1, st1, Some e)
      | (w1, st1, None) \<Rightarrow> sync_records C sid current rs st1 w1)"

lemma process_record_length:
  "process_record C sid current r st w = (w', st', err) \<Longrightarrow> length (script w') \<le> length (script w)"
  by (cases sid) (auto simp: process_record_def split: prod.splits dest: process_incident_length)

lemma sync_records_length:
  "sync_records C sid current rs st w = (w', st', err) \<Longrightarrow> length (script w') \<le> length (script w)"
proof (induction rs arbitrary: st w)
  case Nil
  then show ?case by simp
next
  case (Cons r rs)
  obtain w1 st1 e1 where p: "process_record C sid current r st w = (w1, st1, e1)"
    by (cases "process_record C sid current r st w") auto
  have le: "length (script w1) \<le> length (script w)" using p by (rule process_record_length)
  show ?case
  proof (cases e1)
    case None
    then have "sync_records C sid current rs st1 w1 = (w', st', err)" using Cons.prems p by simp
    then have "length (script w') \<le> length (script w1)" by (rule Cons.IH)
    with le show ?thesis by simp
  next
    case (Some e)
    then show ?thesis using Cons.prems p le by simp
  qed
qed

lemma sync_pages_measure:
  assumes "(w1, Yield pr1) = PagerdutyResponse_next pr w"
    and "(w2, st2, None) = sync_records C sid current records st w1"
  shows "length (script w2) < length (script w) \<or>
         length (script w2) = length (script w) \<and> pr_iteration pr1 \<noteq> 0 \<and> pr_iteration pr = 0"
  using next_measure [OF assms(1) [symmetric] sync_records_length [OF assms(2) [symmetric]]] .

text \<open>
  \<open>for page in response: for record in page.get(self.tap_stream_id): ...\<close> at the top
  level of a sync.
\<close>

function sync_pages :: "collab \<Rightarrow> stream_id \<Rightarrow> datetime option \<Rightarrow> PagerdutyResponse \<Rightarrow> sync_state \<Rightarrow> world
                         \<Rightarrow> world \<times> sync_state \<times> error option" where
  "sync_pages C sid current pr st w =
     (case PagerdutyResponse_next pr w of
        (w1, StopIteration) \<Rightarrow> (w1, st, None)
      | (w1, Raise e) \<Rightarrow> (w1, st, Some e)
      | (w1, Yield pr1) \<Rightarrow>
          (case py_iter (dict_get (pr_response pr1) (tap_stream_id sid)) of
             Inl e \<Rightarrow> (w1, st, Some e)
           | Inr records \<Rightarrow>
               (case sync_records C sid current records st w1 of
                  (w2, st2, Some e) \<Rightarrow> (w2, st2, Some e)
                | (w2, st2, None) \<Rightarrow> sync_pages C sid current pr1 st2 w2)))"
  by pat_completeness auto
termination
  by (relation "measures [\<lambda>(C, sid, current, pr, st, w). length (script w),
                          \<lambda>(C, sid, current, pr, st, w). if pr_iteration pr = 0 then 1 else 0]")
     (auto dest: sync_pages_measure)

declare sync_pages.simps [simp del]

lemma sync_pages_length:
  "sync_pages C sid current pr st w = (w', st', err) \<Longrightarrow> length (script w') \<le> length (script w)"
proof (induction C sid current pr st w rule: sync_pages.induct)
  case (1 C sid current pr st w)
  obtain w1 x where nx: "PagerdutyResponse_next pr w = (w1, x)"
    by (cases "PagerdutyResponse_next pr w") auto
  have le: "length (script w1) \<le> length (script w)" using nx by (rule next_length)
  show ?case
  proof (cases x)
    case (Yield pr1)
    show ?thesis
    proof (cases "py_iter (dict_get (pr_response pr1) (tap_stream_id sid))")
      case (Inl e)
      then have "w' = w1" using "1.prems" nx Yield by (subst (asm) sync_pages.simps) simp
      with le show ?thesis by simp
    next
      case (Inr records)
      obtain w2 st2 e2 where sr: "sync_records C sid current records st w1 = (w2, st2, e2)"
        by (cases "sync_records C sid current records st w1") auto
      have le2: "length (script w2) \<le> length (script w1)" using sr by (rule sync_records_length)
      show ?thesis
      proof (cases e2)
        case None
        then have "sync_pages C sid current pr1 st2 w2 = (w', st', err)"
          using "1.prems" nx Yield Inr sr by (subst (asm) sync_pages.simps) simp
        then have "length (script w') \<le> length (script w2)"
          using "1.IH" [OF nx [symmetric] Yield Inr sr [symmetric] refl None] by simp
        with le le2 show ?thesis by simp
      next
        case (Some e)
        then have "w' = w2" using "1.prems" nx Yield Inr sr by (subst (asm) sync_pages.simps) simp
        with le le2 show ?thesis by simp
      qed
    qed
  next
    case StopIteration
    then have "w' = w1" using "1.prems" nx by (subst (asm) sync_pages.simps) simp
    with le show ?thesis by simp
  next
    case (Raise e)
    then have "w' = w1" using "1.prems" nx by (subst (asm) sync_pages.simps) simp
    with le show ?thesis by simp
  qed
qed

text \<open>
  The parameters of one window, as the \<open>range\<close> dict of the \<open>while\<close> loop. The upper bound
  is the smaller of two formatted strings.
\<close>

definition window_range :: "datetime \<Rightarrow> datetime \<Rightarrow> datetime \<Rightarrow> dict" where
  "window_range since_dtime next_dtime until_dtime =
     [(''offset'', JInt 0),
      (''since'', JStr (isoformat since_dtime)),
      (''until'', JStr (min (isoformat next_dtime) (isoformat until_dtime)))]"

text \<open>
  \<open>while since_dtime < until_dtime: ...\<close> of the three incremental syncs, which differ only
  in \<open>request_range_limit\<close> and in the body of the record loop.
\<close>

function sync_windows :: "collab \<Rightarrow> stream \<Rightarrow> datetime option \<Rightarrow> int \<Rightarrow> datetime \<Rightarrow> datetime
                           \<Rightarrow> sync_state \<Rightarrow> world \<Rightarrow> world \<times> sync_state \<times> error option" where
  "sync_windows C self current request_range_limit until_dtime since_dtime st w =
     (if instant since_dtime < instant until_dtime then
        (case dt_add since_dtime request_range_limit of
           Inl e \<Rightarrow> (w, st, Some e)
         | Inr next_dtime \<Rightarrow>
             (let ps = dict_update (heap w (st_params self))
                         (window_range since_dtime next_dtime until_dtime);
                  w1 = w\<lparr>heap := (heap w)(st_params self := ps)\<rparr>
              in case PagerdutyStream_list_resource (Endpoint (tap_stream_id (st_id self)))
                        (st_params self) w1 of
                   (w2, Inl e) \<Rightarrow> (w2, st, Some e)
                 | (w2, Inr pages) \<Rightarrow>
                     (case sync_pages C (st_id self) current (PagerdutyResponse_iter pages) st w2 of
                        (w3, st3, Some e) \<Rightarrow> (w3, st3, Some e)
                      | (w3, st3, None) \<Rightarrow>
                          sync_windows C self current request_range_limit until_dtime next_dtime st3 w3)))
      else (w, st, None))"
  by pat_completeness auto
termination
  by (relation "measure (\<lambda>(C, self, current, lim, until_dtime, since_dtime, st, w). length (script w))")
     (auto dest!: list_resource_consumes [OF sym] sync_pages_length [OF sym])

declare sync_windows.simps [simp del]

section \<open>The syncs\<close>

text \<open>
  \<open>singer.bookmarks.get_bookmark(state, tap_stream_id, key, default=None)\<close> and
  \<open>singer.bookmarks.write_bookmark(state, tap_stream_id, key, val)\<close>.
\<close>

definition get_bookmark :: "world \<Rightarrow> string \<Rightarrow> string \<Rightarrow> json" where
  "get_bookmark w sid key = (case map_of (bookmarks w) sid of None \<Rightarrow> JNull | Some d \<Rightarrow> dict_get d key)"

definition write_bookmark :: "string \<Rightarrow> string \<Rightarrow> json \<Rightarrow> world \<Rightarrow> world" where
  "write_bookmark sid key val w =
     w\<lparr>bookmarks :=
          AList.update sid
            (AList.update key val (case map_of (bookmarks w) sid of None \<Rightarrow> [] | Some d \<Rightarrow> d))
            (bookmarks w)\<rparr>"

definition start_state :: sync_state where
  "start_state = \<lparr>sink = [], running = None\<rparr>"

text \<open>The bookmark read at the start of an incremental sync, parsed.\<close>

definition read_bookmark :: "collab \<Rightarrow> stream \<Rightarrow> world \<Rightarrow> error + datetime option" where
  "read_bookmark C self w =
     (let current_bookmark = get_bookmark w (tap_stream_id (st_id self)) (replication_key (st_id self))
      in if current_bookmark \<noteq> JNull
         then (case py_parse C current_bookmark of Inl e \<Rightarrow> Inl e | Inr d \<Rightarrow> Inr (Some d))
         else Inr None)"

text \<open>
  The last step of an incremental sync: \<open>running_bookmark_dtime.isoformat()\<close>, then
  \<open>write_bookmark\<close>. None has no \<open>isoformat\<close>.
\<close>

definition finish_sync :: "stream \<Rightarrow> sync_state \<Rightarrow> world \<Rightarrow> world \<times> sync_state \<times> error option" where
  "finish_sync self st w =
     (case running st of
        None \<Rightarrow> (w, st, Some AttributeError)
      | Some running_bookmark_dtime \<Rightarrow>
          (write_bookmark (tap_stream_id (st_id self)) (replication_key (st_id self))
             (JStr (isoformat running_bookmark_dtime)) w, st, None))"

text \<open>
  \<open>sync\<close> of the incidents, notifications and on-calls streams. It returns the world, the
  records written with the running bookmark, and the exception that ended it, if any.
\<close>

definition sync_incremental :: "collab \<Rightarrow> stream \<Rightarrow> int \<Rightarrow> world
                                 \<Rightarrow> world \<times> sync_state \<times> error option" where
  "sync_incremental C self request_range_limit w =
     (case read_bookmark C self w of
        Inl e \<Rightarrow> (w, start_state, Some e)
      | Inr current \<Rightarrow>
     (case (case current of
              Some b \<Rightarrow> Inr b
            | None \<Rightarrow> py_parse C (dict_get (heap w (st_params self)) ''since'')) of
        Inl e \<Rightarrow> (w, start_state, Some e)
      | Inr since_dtime \<Rightarrow>
     (case py_parse C (dict_get (heap w (st_params self)) ''until'') of
        Inl e \<Rightarrow> (w, start_state, Some e)
      | Inr until_dtime \<Rightarrow>
     (case sync_windows C self current request_range_limit until_dtime since_dtime start_state w of
        (w1, st1, Some e) \<Rightarrow> (w1, st1, Some e)
      | (w1, st1, None) \<Rightarrow> finish_sync self st1 w1))))"

text \<open>\<open>sync\<close> of the four full-table streams.\<close>

definition sync_full_table :: "collab \<Rightarrow> stream \<Rightarrow> world \<Rightarrow> world \<times> sync_state \<times> error option" where
  "sync_full_table C self w =
     (case PagerdutyStream_list_resource (Endpoint (tap_stream_id (st_id self))) (st_params self) w of
        (w1, Inl e) \<Rightarrow> (w1, start_state, Some e)
      | (w1, Inr pages) \<Rightarrow>
          sync_pages C (st_id self) None (PagerdutyResponse_iter pages) start_state w1)"

definition sync :: "collab \<Rightarrow> stream \<Rightarrow> world \<Rightarrow> world \<times> sync_state \<times> error option" where
  "sync C self w =
     (case st_id self of
        Incidents \<Rightarrow> sync_incremental C self (timedelta_days 7) w
      | Notifications \<Rightarrow> sync_incremental C self (timedelta_days 89) w
      | Oncalls \<Rightarrow> sync_incremental C self (timedelta_days 89) w
      | _ \<Rightarrow> sync_full_table C self w)"

section \<open>Construction\<close>

lemma dict_update_single: "dict_update ps [(k, v)] = AList.update k v ps"
  by (simp add: dict_update_def)

lemma check_keys_valid: "set keys \<subseteq> set valid \<Longrightarrow> check_keys sid valid keys = None"
  by (induction keys) auto

lemma check_keys_invalid:
  "\<not> set keys \<subseteq> set valid \<Longrightarrow> \<exists>m. check_keys sid valid keys = Some (RuntimeError m)"
  by (induction keys) auto

lemma check_required_missing:
  "p \<in> set required \<Longrightarrow> p \<noteq> ''until'' \<Longrightarrow> p \<notin> fst ` set ps \<Longrightarrow>
     \<exists>m. check_required sid now required ps = Inl (RuntimeError m)"
proof (induction required arbitrary: ps)
  case Nil
  then show ?case by simp
next
  case (Cons param rest)
  show ?case
  proof (cases "param \<in> fst ` set ps")
    case True
    then have "p \<in> set rest" using Cons.prems by auto
    then show ?thesis using Cons.IH [of ps] Cons.prems True by simp
  next
    case False
    show ?thesis
    proof (cases "param = ''until''")
      case True
      then have "p \<in> set rest" using Cons.prems by auto
      moreover have "p \<notin> fst ` set (AList.update ''until'' (JStr now) ps)"
        using Cons.prems by (simp add: dom_update)
      ultimately show ?thesis
        using Cons.IH [of "AList.update ''until'' (JStr now) ps"] Cons.prems False True
        by (simp add: dict_update_single)
    next
      case False
      then show ?thesis using \<open>param \<notin> fst ` set ps\<close> by simp
    qed
  qed
qed

lemma check_required_present:
  "\<forall>p \<in> set required. p = ''until'' \<or> p \<in> fst ` set ps \<Longrightarrow>
     check_required sid now required ps =
       Inr (if ''until'' \<in> set required \<and> ''until'' \<notin> fst ` set ps
            then AList.update ''until'' (JStr now) ps else ps)"
proof (induction required arbitrary: ps)
  case Nil
  then show ?case by simp
next
  case (Cons param rest)
  show ?case
  proof (cases "param \<in> fst ` set ps")
    case True
    then show ?thesis using Cons.IH [of ps] Cons.prems by auto
  next
    case False
    then have u: "param = ''until''" using Cons.prems by auto
    let ?ps = "AList.update ''until'' (JStr now) ps"
    have "\<forall>p \<in> set rest. p = ''until'' \<or> p \<in> fst ` set ?ps"
      using Cons.prems by (auto simp: dom_update)
    then have "check_required sid now rest ?ps = Inr ?ps"
      using Cons.IH [of ?ps] by (simp add: dom_update)
    then show ?thesis using False u by (simp add: dict_update_single)
  qed
qed

text \<open>
  C8. Construction of a stream, for any accepted and required parameter lists. Let \<open>os\<close>
  be the stream's overrides in the configuration (empty when there are none) and \<open>ps\<close>
  the defaults updated with them. (1) If an override key is not an accepted parameter,
  construction raises RuntimeError. (2) If all are accepted and a required parameter other
  than \<open>until\<close> is absent from \<open>ps\<close>, construction raises RuntimeError. (3) If all are
  accepted and every required parameter is in \<open>ps\<close> or is \<open>until\<close>, construction succeeds,
  and its parameters are \<open>ps\<close>, with \<open>until\<close> set to the current timestamp when \<open>until\<close> is
  required and absent. (4) Construction never consumes a network attempt nor logs a request,
  and a failed construction leaves the world as it was.
\<close>

theorem construction_fails_fast:
  assumes "stream_overrides config sid = Inr ov"
    and "ov = JNull \<and> os = [] \<or> ov = JObj os"
  shows "(\<not> set (map fst os) \<subseteq> set valid \<longrightarrow>
            (\<exists>m. init_params sid valid required config now = Inl (RuntimeError m)))
       \<and> (set (map fst os) \<subseteq> set valid
            \<and> (\<exists>p \<in> set required. p \<noteq> ''until'' \<and> p \<notin> fst ` set (dict_update (base_params config) os))
            \<longrightarrow> (\<exists>m. init_params sid valid required config now = Inl (RuntimeError m)))
       \<and> (set (map fst os) \<subseteq> set valid
            \<and> (\<forall>p \<in> set required. p = ''until'' \<or> p \<in> fst ` set (dict_update (base_params config) os))
            \<longrightarrow> init_params sid valid required config now =
                  Inr (if ''until'' \<in> set required
                          \<and> ''until'' \<notin> fst ` set (dict_update (base_params config) os)
                       then dict_update (dict_update (base_params config) os) [(''until'', JStr now)]
                       else dict_update (base_params config) os))
       \<and> (\<forall>s w w' r. PagerdutyStream_init s config w = (w', r) \<longrightarrow>
            script w' = script w \<and> requested w' = requested w \<and> (\<forall>e. r = Inl e \<longrightarrow> w' = w))"
proof -
  let ?ps = "dict_update (base_params config) os"
  have base: "dict_update (base_params config) [] = base_params config"
    by (simp add: dict_update_def)
  have run: "set (map fst os) \<subseteq> set valid \<Longrightarrow>
               init_params sid valid required config now = check_required sid now required ?ps"
    using assms by (auto simp: init_params_def base check_keys_valid)
  have c1: "\<not> set (map fst os) \<subseteq> set valid \<longrightarrow>
              (\<exists>m. init_params sid valid required config now = Inl (RuntimeError m))"
  proof
    assume bad: "\<not> set (map fst os) \<subseteq> set valid"
    then have "ov = JObj os" using assms(2) by auto
    moreover obtain m where "check_keys sid valid (map fst os) = Some (RuntimeError m)"
      using check_keys_invalid [OF bad] by blast
    ultimately show "\<exists>m. init_params sid valid required config now = Inl (RuntimeError m)"
      using assms(1) by (simp add: init_params_def)
  qed
  have c2: "set (map fst os) \<subseteq> set valid
            \<and> (\<exists>p \<in> set required. p \<noteq> ''until'' \<and> p \<notin> fst ` set ?ps)
            \<longrightarrow> (\<exists>m. init_params sid valid required config now = Inl (RuntimeError m))"
    using run check_required_missing [of _ required ?ps sid now] by auto
  have c3: "set (map fst os) \<subseteq> set valid
            \<and> (\<forall>p \<in> set required. p = ''until'' \<or> p \<in> fst ` set ?ps)
            \<longrightarrow> init_params sid valid required config now =
                  Inr (if ''until'' \<in> set required \<and> ''until'' \<notin> fst ` set ?ps
                       then dict_update ?ps [(''until'', JStr now)] else ?ps)"
    using run check_required_present [of required ?ps sid now] by (simp add: dict_update_single)
  have c4: "\<forall>s w w' r. PagerdutyStream_init s config w = (w', r) \<longrightarrow>
              script w' = script w \<and> requested w' = requested w \<and> (\<forall>e. r = Inl e \<longrightarrow> w' = w)"
    by (auto simp: PagerdutyStream_init_def split: sum.splits)
  from c1 c2 c3 c4 show ?thesis by blast
qed

theorem construction_fails_fast_witness:
  "(\<exists>m. init_params ''users'' (valid_params Users) (required_params Users)
          [(''streams'', JObj [(''users'', JObj [(''since'', JStr ''2024-01-01T00:00:00Z'')])])]
          ''2024-01-08T00:00:00+00:00'' = Inl (RuntimeError m))
   \<and> (\<exists>m. init_params ''oncalls'' [''until'', ''earliest''] [''until'', ''earliest''] []
          ''2024-01-08T00:00:00+00:00'' = Inl (RuntimeError m))
   \<and> init_params ''incidents'' (valid_params Incidents) (required_params Incidents)
        [(''since'', JStr ''2024-01-01T00:00:00Z''),
         (''streams'', JObj [(''incidents'', JObj [(''sort_by'', JStr ''created_at'')])])]
        ''2024-01-08T00:00:00+00:00''
      = Inr [(''limit'', JInt 100), (''offset'', JInt 0), (''since'', JStr ''2024-01-01T00:00:00Z''),
             (''time_zone'', JStr ''UTC''), (''sort_by'', JStr ''created_at''),
             (''until'', JStr ''2024-01-08T00:00:00+00:00'')]"
proof -
  have a: "\<exists>m. init_params ''users'' (valid_params Users) (required_params Users)
          [(''streams'', JObj [(''users'', JObj [(''since'', JStr ''2024-01-01T00:00:00Z'')])])]
          ''2024-01-08T00:00:00+00:00'' = Inl (RuntimeError m)"
    using construction_fails_fast
            [of "[(''streams'', JObj [(''users'', JObj [(''since'', JStr ''2024-01-01T00:00:00Z'')])])]"
                "''users''" "JObj [(''since'', JStr ''2024-01-01T00:00:00Z'')]"
                "[(''since'', JStr ''2024-01-01T00:00:00Z'')]"
                "valid_params Users" "required_params Users" "''2024-01-08T00:00:00+00:00''"]
    by (simp add: stream_overrides_def py_get_def dict_get_def)
  have b: "\<exists>m. init_params ''oncalls'' [''until'', ''earliest''] [''until'', ''earliest''] []
          ''2024-01-08T00:00:00+00:00'' = Inl (RuntimeError m)"
    using construction_fails_fast
            [of "[]" "''oncalls''" JNull "[]" "[''until'', ''earliest'']" "[''until'', ''earliest'']"
                "''2024-01-08T00:00:00+00:00''"]
    by (simp add: stream_overrides_def py_get_def dict_get_def dict_update_def base_params_def)
  have c: "init_params ''incidents'' (valid_params Incidents) (required_params Incidents)
        [(''since'', JStr ''2024-01-01T00:00:00Z''),
         (''streams'', JObj [(''incidents'', JObj [(''sort_by'', JStr ''created_at'')])])]
        ''2024-01-08T00:00:00+00:00''
      = Inr [(''limit'', JInt 100), (''offset'', JInt 0), (''since'', JStr ''2024-01-01T00:00:00Z''),
             (''time_zone'', JStr ''UTC''), (''sort_by'', JStr ''created_at''),
             (''until'', JStr ''2024-01-08T00:00:00+00:00'')]"
    using construction_fails_fast
            [of "[(''since'', JStr ''2024-01-01T00:00:00Z''),
                  (''streams'', JObj [(''incidents'', JObj [(''sort_by'', JStr ''created_at'')])])]"
                "''incidents''" "JObj [(''sort_by'', JStr ''created_at'')]"
                "[(''sort_by'', JStr ''created_at'')]"
                "valid_params Incidents" "required_params Incidents" "''2024-01-08T00:00:00+00:00''"]
    by (simp add: stream_overrides_def py_get_def dict_get_def dict_update_def base_params_def)
  from a b c show ?thesis by blast
qed

section \<open>Pagination\<close>




lemma retry_http_ok:
  "get_once a = Inr d \<Longrightarrow> retry_http start n (a # rest) now = (rest, now + int (took a), Inr d)"
  by (subst retry_http.simps) (simp add: Let_def)

lemma get_ok:
  "script w = a # rest \<Longrightarrow> get_once a = Inr d \<Longrightarrow>
     PagerdutyStream_get u ps w =
       (w\<lparr>script := rest, clock := clock w + int (took a), requested := requested w @ [(u, ps)]\<rparr>, Inr d)"
  by (simp add: PagerdutyStream_get_def retry_http_ok)

lemma bump_offset_int:
  "map_of ps ''offset'' = Some (JInt off) \<Longrightarrow> map_of ps ''limit'' = Some (JInt l) \<Longrightarrow>
     bump_offset ps = Inr (AList.update ''offset'' (JInt (off + l)) ps)"
  by (simp add: bump_offset_def dict_item_def py_iadd_def)

lemma map_upt_shift: "map f [1..<Suc (Suc n)] = f 1 # map (\<lambda>i. f (Suc i)) [1..<Suc n]"
proof -
  have "[1..<Suc (Suc n)] = 1 # map Suc [1..<Suc n]"
    unfolding map_Suc_upt by (simp add: upt_conv_Cons del: upt_Suc)
  then show ?thesis by (simp add: comp_def del: upt_Suc)
qed



text \<open>Concrete inputs for the examples below.\<close>

definition ok_attempt :: "dict \<Rightarrow> attempt" where
  "ok_attempt d = \<lparr>outcome = Response 200 (Some d), took = 0, draw = 0\<rparr>"

definition world0 :: "attempt list \<Rightarrow> (string \<times> dict) list \<Rightarrow> world" where
  "world0 scr bm =
     \<lparr>script = scr, clock = 1704672000000000, requested = [], heap = (\<lambda>_. []), next_ref = 0,
      bookmarks = bm\<rparr>"


definition demo_collab :: collab where
  "demo_collab =
     \<lparr>parse = map_of
        [(''2024-01-01T00:00:00Z'', \<lparr>instant = 1704067200000000, utcoff = 0\<rparr>),
         (''2024-01-02T00:00:00Z'', \<lparr>instant = 1704153600000000, utcoff = 0\<rparr>),
         (''2024-01-08T00:00:00+00:00'', \<lparr>instant = 1704672000000000, utcoff = 0\<rparr>)],
      transform = Inr\<rparr>"

definition incident_P1 :: json where
  "incident_P1 = JObj [(''id'', JStr ''P1''), (''created_at'', JStr ''2024-01-02T00:00:00Z'')]"

text \<open>Two pages of log entries, then two pages of alerts.\<close>

definition two_by_two :: "attempt list" where
  "two_by_two =
     [ok_attempt [(''log_entries'', JList [JStr ''l1'']), (''more'', JBool True)],
      ok_attempt [(''log_entries'', JList [JStr ''l2'']), (''more'', JBool False)],
      ok_attempt [(''alerts'', JList [JStr ''a1'']), (''more'', JBool True)],
      ok_attempt [(''alerts'', JList [JStr ''a2'']), (''more'', JBool False)]]"



section \<open>The parameters shared by the sub-resource paginations\<close>

lemma get_effect:
  "PagerdutyStream_get u ps w = (w1, r) \<Longrightarrow>
     requested w1 = requested w @ [(u, ps)] \<and> heap w1 = heap w \<and> next_ref w1 = next_ref w
     \<and> bookmarks w1 = bookmarks w"
  by (auto simp: PagerdutyStream_get_def split: prod.splits)

lemma next_no_request:
  assumes "pr_iteration pr = 0 \<or> dict_get (pr_response pr) ''more'' \<noteq> JBool True"
    and "PagerdutyResponse_next pr w = (w1, x)"
  shows "w1 = w \<and> (x = StopIteration \<or> x = Yield (pr\<lparr>pr_iteration := 1\<rparr>))"
  using assms by (auto simp: PagerdutyResponse_next_def Let_def split: if_splits)

lemma next_request:
  assumes "pr_iteration pr \<noteq> 0" "dict_get (pr_response pr) ''more'' = JBool True"
    and "map_of (heap w (pr_params pr)) ''offset'' = Some (JInt off)"
    and "map_of (heap w (pr_params pr)) ''limit'' = Some (JInt l)"
    and "PagerdutyResponse_next pr w = (w1, x)"
  shows "requested w1 = requested w @
           [(pr_url_suffix pr, AList.update ''offset'' (JInt (off + l)) (heap w (pr_params pr)))]
       \<and> heap w1 = (heap w)(pr_params pr := AList.update ''offset'' (JInt (off + l)) (heap w (pr_params pr)))
       \<and> next_ref w1 = next_ref w \<and> bookmarks w1 = bookmarks w
       \<and> ((\<exists>e. x = Raise e)
          \<or> (\<exists>d. x = Yield (pr\<lparr>pr_iteration := pr_iteration pr + 1, pr_response := d\<rparr>)))"
proof -
  let ?ps1 = "AList.update ''offset'' (JInt (off + l)) (heap w (pr_params pr))"
  let ?wh = "w\<lparr>heap := (heap w)(pr_params pr := ?ps1)\<rparr>"
  obtain w2 r where g: "PagerdutyStream_get (pr_url_suffix pr) ?ps1 ?wh = (w2, r)"
    by (cases "PagerdutyStream_get (pr_url_suffix pr) ?ps1 ?wh") auto
  have "w1 = w2 \<and> ((\<exists>e. x = Raise e)
          \<or> (\<exists>d. x = Yield (pr\<lparr>pr_iteration := pr_iteration pr + 1, pr_response := d\<rparr>)))"
    using assms(1,2,5) bump_offset_int [OF assms(3,4)] g
    by (cases r) (auto simp: PagerdutyResponse_next_def Let_def)
  then show ?thesis using get_effect [OF g] by simp
qed

text \<open>
  Whatever the loop body and whatever the network does, a page loop on a parameter dict
  with integer offset and limit makes some number \<open>n\<close> of requests, with the offsets
  \<open>off + l\<close>, ..., \<open>off + n * l\<close>, and leaves the last of them in the dict.
\<close>

lemma for_pages_requests:
  assumes "for_pages body pr acc w = (w', acc', err)"
    and "map_of (heap w (pr_params pr)) ''offset'' = Some (JInt off)"
    and "map_of (heap w (pr_params pr)) ''limit'' = Some (JInt l)"
  shows "\<exists>n. requested w' = requested w @
                map (\<lambda>i. (pr_url_suffix pr,
                           AList.update ''offset'' (JInt (off + int i * l)) (heap w (pr_params pr))))
                    [1..<Suc n]
           \<and> heap w' = (heap w)(pr_params pr :=
                AList.update ''offset'' (JInt (off + int n * l)) (heap w (pr_params pr)))
           \<and> next_ref w' = next_ref w"
  using assms
proof (induction body pr acc w arbitrary: off rule: for_pages.induct)
  case (1 body pr acc w)
  let ?ref = "pr_params pr"
  let ?ps = "heap w ?ref"
  let ?F = "\<lambda>i. (pr_url_suffix pr, AList.update ''offset'' (JInt (off + int i * l)) ?ps)"
  have triv: "AList.update ''offset'' (JInt off) ?ps = ?ps"
    using "1.prems"(2) by (rule update_triv)
  have zero: "\<And>w0. w0 = w \<Longrightarrow> requested w0 = requested w @ map ?F [1..<Suc 0]
               \<and> heap w0 = (heap w)(?ref := AList.update ''offset'' (JInt (off + int 0 * l)) ?ps)
               \<and> next_ref w0 = next_ref w"
    using triv by simp
  obtain w1 x where nx: "PagerdutyResponse_next pr w = (w1, x)"
    by (cases "PagerdutyResponse_next pr w") auto
  show ?case
  proof (cases "pr_iteration pr = 0 \<or> dict_get (pr_response pr) ''more'' \<noteq> JBool True")
    case True
    from next_no_request [OF True nx]
    have w1: "w1 = w" and x: "x = StopIteration \<or> x = Yield (pr\<lparr>pr_iteration := 1\<rparr>)" by auto
    show ?thesis
    proof (cases x)
      case StopIteration
      then have "w' = w" using "1.prems"(1) nx w1 by (subst (asm) for_pages.simps) simp
      then show ?thesis using zero by blast
    next
      case (Raise e)
      then show ?thesis using x by simp
    next
      case (Yield pr1)
      then have pr1: "pr1 = pr\<lparr>pr_iteration := 1\<rparr>" using x by simp
      obtain acc1 r where b: "body (pr_response pr1) acc = (acc1, r)"
        by (cases "body (pr_response pr1) acc") auto
      show ?thesis
      proof (cases r)
        case (Some e)
        then have "w' = w" using "1.prems"(1) nx w1 Yield b by (subst (asm) for_pages.simps) simp
        then show ?thesis using zero by blast
      next
        case None
        then have run: "for_pages body pr1 acc1 w1 = (w', acc', err)"
          using "1.prems"(1) nx Yield b by (subst (asm) for_pages.simps) simp
        have "\<exists>n. requested w' = requested w1 @
                map (\<lambda>i. (pr_url_suffix pr1,
                           AList.update ''offset'' (JInt (off + int i * l)) (heap w1 (pr_params pr1))))
                    [1..<Suc n]
           \<and> heap w' = (heap w1)(pr_params pr1 :=
                AList.update ''offset'' (JInt (off + int n * l)) (heap w1 (pr_params pr1)))
           \<and> next_ref w' = next_ref w1"
        proof (rule "1.IH" [OF nx [symmetric] Yield b [symmetric] None run])
          show "map_of (heap w1 (pr_params pr1)) ''offset'' = Some (JInt off)"
            using "1.prems"(2) w1 pr1 by simp
          show "map_of (heap w1 (pr_params pr1)) ''limit'' = Some (JInt l)"
            using "1.prems"(3) w1 pr1 by simp
        qed
        then obtain n where n: "requested w' = requested w1 @
                map (\<lambda>i. (pr_url_suffix pr1,
                           AList.update ''offset'' (JInt (off + int i * l)) (heap w1 (pr_params pr1))))
                    [1..<Suc n]"
          "heap w' = (heap w1)(pr_params pr1 :=
                AList.update ''offset'' (JInt (off + int n * l)) (heap w1 (pr_params pr1)))"
          "next_ref w' = next_ref w1"
          by blast
        have req: "requested w' = requested w @ map ?F [1..<Suc n]"
          unfolding n(1) w1 pr1 by (simp del: upt_Suc)
        have hp: "heap w' = (heap w)(?ref := AList.update ''offset'' (JInt (off + int n * l)) ?ps)"
          unfolding n(2) w1 pr1 by simp
        have nr: "next_ref w' = next_ref w" using n(3) w1 by simp
        show ?thesis using req hp nr by blast
      qed
    qed
  next
    case False
    then have it: "pr_iteration pr \<noteq> 0" and more: "dict_get (pr_response pr) ''more'' = JBool True"
      by auto
    let ?ps1 = "AList.update ''offset'' (JInt (off + l)) ?ps"
    from next_request [OF it more "1.prems"(2,3) nx]
    have e1: "requested w1 = requested w @ [(pr_url_suffix pr, ?ps1)]"
      and e2: "heap w1 = (heap w)(?ref := ?ps1)"
      and e3: "next_ref w1 = next_ref w"
      and x: "(\<exists>e. x = Raise e)
              \<or> (\<exists>d. x = Yield (pr\<lparr>pr_iteration := pr_iteration pr + 1, pr_response := d\<rparr>))"
      by auto
    have one: "\<And>w0. w0 = w1 \<Longrightarrow> requested w0 = requested w @ map ?F [1..<Suc 1]
               \<and> heap w0 = (heap w)(?ref := AList.update ''offset'' (JInt (off + int 1 * l)) ?ps)
               \<and> next_ref w0 = next_ref w"
      using e1 e2 e3 by simp
    show ?thesis
    proof (cases x)
      case StopIteration
      then show ?thesis using x by simp
    next
      case (Raise e)
      then have "w' = w1" using "1.prems"(1) nx by (subst (asm) for_pages.simps) simp
      then show ?thesis using one by blast
    next
      case (Yield pr1)
      then obtain d where pr1: "pr1 = pr\<lparr>pr_iteration := pr_iteration pr + 1, pr_response := d\<rparr>"
        using x by auto
      obtain acc1 r where b: "body (pr_response pr1) acc = (acc1, r)"
        by (cases "body (pr_response pr1) acc") auto
      show ?thesis
      proof (cases r)
        case (Some e)
        then have "w' = w1" using "1.prems"(1) nx Yield b by (subst (asm) for_pages.simps) simp
        then show ?thesis using one by blast
      next
        case None
        then have run: "for_pages body pr1 acc1 w1 = (w', acc', err)"
          using "1.prems"(1) nx Yield b by (subst (asm) for_pages.simps) simp
        have h1: "heap w1 (pr_params pr1) = ?ps1" using e2 pr1 by simp
        have "\<exists>n. requested w' = requested w1 @
                map (\<lambda>i. (pr_url_suffix pr1,
                           AList.update ''offset'' (JInt (off + l + int i * l)) (heap w1 (pr_params pr1))))
                    [1..<Suc n]
           \<and> heap w' = (heap w1)(pr_params pr1 :=
                AList.update ''offset'' (JInt (off + l + int n * l)) (heap w1 (pr_params pr1)))
           \<and> next_ref w' = next_ref w1"
        proof (rule "1.IH" [OF nx [symmetric] Yield b [symmetric] None run])
          show "map_of (heap w1 (pr_params pr1)) ''offset'' = Some (JInt (off + l))"
            by (simp add: h1 update_conv')
          show "map_of (heap w1 (pr_params pr1)) ''limit'' = Some (JInt l)"
            using "1.prems"(3) by (simp add: h1 update_conv')
        qed
        then obtain n where n: "requested w' = requested w1 @
                map (\<lambda>i. (pr_url_suffix pr1, AList.update ''offset'' (JInt (off + l + int i * l)) ?ps1))
                    [1..<Suc n]"
          "heap w' = (heap w1)(pr_params pr1 := AList.update ''offset'' (JInt (off + l + int n * l)) ?ps1)"
          "next_ref w' = next_ref w1"
          unfolding h1 by blast
        have "map ?F [1..<Suc (Suc n)] = ?F 1 # map (\<lambda>i. ?F (Suc i)) [1..<Suc n]"
          by (rule map_upt_shift)
        also have "\<dots> = (pr_url_suffix pr, ?ps1) #
                 map (\<lambda>i. (pr_url_suffix pr1, AList.update ''offset'' (JInt (off + l + int i * l)) ?ps1))
                     [1..<Suc n]"
          by (simp add: pr1 algebra_simps del: upt_Suc)
        finally have req: "requested w' = requested w @ map ?F [1..<Suc (Suc n)]"
          unfolding n(1) e1 by (simp del: upt_Suc)
        have hp: "heap w' = (heap w)(?ref := AList.update ''offset'' (JInt (off + int (Suc n) * l)) ?ps)"
          unfolding n(2) e2 by (simp add: pr1 algebra_simps)
        have nr: "next_ref w' = next_ref w" using n(3) e3 by simp
        show ?thesis using req hp nr by blast
      qed
    qed
  qed
qed

lemma map_upt_head: "map f [0..<Suc n] = f 0 # map f [1..<Suc n]"
  by (simp add: upt_conv_Cons del: upt_Suc)

lemma for_resource_requests:
  assumes "for_resource body u ref acc w = (w', acc', err)"
    and "map_of (heap w ref) ''offset'' = Some (JInt off)"
    and "map_of (heap w ref) ''limit'' = Some (JInt l)"
  shows "\<exists>n. requested w' = requested w @
                map (\<lambda>i. (u, AList.update ''offset'' (JInt (off + int i * l)) (heap w ref))) [0..<Suc n]
           \<and> heap w' = (heap w)(ref := AList.update ''offset'' (JInt (off + int n * l)) (heap w ref))
           \<and> next_ref w' = next_ref w"
proof -
  let ?ps = "heap w ref"
  let ?F = "\<lambda>i. (u, AList.update ''offset'' (JInt (off + int i * l)) ?ps)"
  have triv: "AList.update ''offset'' (JInt off) ?ps = ?ps" using assms(2) by (rule update_triv)
  obtain w1 res where g: "PagerdutyStream_get u ?ps w = (w1, res)"
    by (cases "PagerdutyStream_get u ?ps w") auto
  from get_effect [OF g]
  have e1: "requested w1 = requested w @ [(u, ?ps)]" and e2: "heap w1 = heap w"
    and e3: "next_ref w1 = next_ref w" by auto
  show ?thesis
  proof (cases res)
    case (Inl e)
    then have "w' = w1"
      using assms(1) g by (simp add: for_resource_def PagerdutyStream_list_resource_def)
    then have "requested w' = requested w @ map ?F [0..<Suc 0]"
      "heap w' = (heap w)(ref := AList.update ''offset'' (JInt (off + int 0 * l)) ?ps)"
      "next_ref w' = next_ref w"
      using e1 e2 e3 triv by simp_all
    then show ?thesis by blast
  next
    case (Inr d)
    define pr where "pr = \<lparr>pr_url_suffix = u, pr_params = ref, pr_response = d, pr_iteration = 0\<rparr>"
    have run: "for_pages body pr acc w1 = (w', acc', err)"
      using assms(1) g Inr
      by (simp add: for_resource_def PagerdutyStream_list_resource_def PagerdutyResponse_iter_def pr_def)
    have "\<exists>n. requested w' = requested w1 @
                map (\<lambda>i. (pr_url_suffix pr,
                           AList.update ''offset'' (JInt (off + int i * l)) (heap w1 (pr_params pr))))
                    [1..<Suc n]
           \<and> heap w' = (heap w1)(pr_params pr :=
                AList.update ''offset'' (JInt (off + int n * l)) (heap w1 (pr_params pr)))
           \<and> next_ref w' = next_ref w1"
    proof (rule for_pages_requests [OF run])
      show "map_of (heap w1 (pr_params pr)) ''offset'' = Some (JInt off)"
        using assms(2) e2 by (simp add: pr_def)
      show "map_of (heap w1 (pr_params pr)) ''limit'' = Some (JInt l)"
        using assms(3) e2 by (simp add: pr_def)
    qed
    then obtain n where n: "requested w' = requested w1 @
                map (\<lambda>i. (pr_url_suffix pr,
                           AList.update ''offset'' (JInt (off + int i * l)) (heap w1 (pr_params pr))))
                    [1..<Suc n]"
      "heap w' = (heap w1)(pr_params pr :=
                AList.update ''offset'' (JInt (off + int n * l)) (heap w1 (pr_params pr)))"
      "next_ref w' = next_ref w1"
      by blast
    have "map ?F [0..<Suc n] = ?F 0 # map ?F [1..<Suc n]" by (rule map_upt_head)
    then have req: "requested w' = requested w @ map ?F [0..<Suc n]"
      unfolding n(1) e1 e2 using triv by (simp add: pr_def del: upt_Suc)
    have hp: "heap w' = (heap w)(ref := AList.update ''offset'' (JInt (off + int n * l)) ?ps)"
      unfolding n(2) e2 by (simp add: pr_def)
    have nr: "next_ref w' = next_ref w" using n(3) e3 by simp
    show ?thesis using req hp nr by blast
  qed
qed

text \<open>
  C10. Whatever the record and whatever the network does, the requests made while one
  incident record is processed are \<open>k\<close> requests for its log entries, with the offsets
  \<open>0, 100, ..., (k - 1) * 100\<close>, followed by \<open>m\<close> requests for its alerts, with the offsets
  \<open>(k - 1) * 100, k * 100, ...\<close>. Every page a pagination hands out is the response to one
  request, so when an alerts request is made the log entries came in \<open>k\<close> pages, and the
  first alerts request starts at the offset \<open>(k - 1) * 100\<close> that the log-entries
  pagination left in the shared dict: at 0 only when \<open>k = 1\<close>.
\<close>

theorem alerts_offset_left_over:
  assumes "process_incident C current r st w = (w', st', err)"
  shows "\<exists>i1 i3 k m.
           requested w' = requested w
             @ map (\<lambda>j. (SubEndpoint ''incidents'' i1 ''log_entries'',
                         AList.update ''offset'' (JInt (100 * int j)) substream_params)) [0..<k]
             @ map (\<lambda>j. (SubEndpoint ''incidents'' i3 ''alerts'',
                         AList.update ''offset'' (JInt (100 * (int k - 1) + 100 * int j)) substream_params))
                   [0..<m]
         \<and> (0 < m \<longrightarrow> 0 < k)"
proof -
  let ?sp = substream_params
  let ?L = "\<lambda>i (j::nat). (SubEndpoint ''incidents'' i ''log_entries'',
                           AList.update ''offset'' (JInt (100 * int j)) ?sp)"
  let ?A = "\<lambda>i (k::nat) (j::nat). (SubEndpoint ''incidents'' i ''alerts'',
                           AList.update ''offset'' (JInt (100 * (int k - 1) + 100 * int j)) ?sp)"
  let ?ref = "next_ref w"
  define w1 where "w1 = w\<lparr>heap := (heap w)(?ref := ?sp), next_ref := ?ref + 1\<rparr>"
  have rq1: "requested w1 = requested w" by (simp add: w1_def)
  have h1: "heap w1 ?ref = ?sp" by (simp add: w1_def)
  have none: "requested w' = requested w \<Longrightarrow> ?thesis"
  proof -
    assume "requested w' = requested w"
    then have "requested w' = requested w @ map (?L JNull) [0..<0] @ map (?A JNull 0) [0..<0]
                 \<and> ((0::nat) < 0 \<longrightarrow> (0::nat) < 0)"
      by simp
    then show ?thesis by blast
  qed
  show ?thesis
  proof (cases "py_get r ''created_at''")
    case (Inl e)
    then have "w' = w" using assms by (simp add: process_incident_def)
    then show ?thesis using none by simp
  next
    case v: (Inr v)
    show ?thesis
    proof (cases "py_parse C v")
      case (Inl e)
      then have "w' = w" using assms v by (simp add: process_incident_def)
      then show ?thesis using none by simp
    next
      case kk: (Inr kk)
      show ?thesis
      proof (cases "set_item r ''log_entries'' (JList [])")
        case (Inl e)
        then have "w' = w1" using assms v kk by (simp add: process_incident_def Let_def w1_def)
        then show ?thesis using none rq1 by simp
      next
        case r1: (Inr r1)
        show ?thesis
        proof (cases "py_get r1 ''id''")
          case (Inl e)
          then have "w' = w1" using assms v kk r1 by (simp add: process_incident_def Let_def w1_def)
          then show ?thesis using none rq1 by simp
        next
          case i1: (Inr i1)
          obtain w3 r2 e3 where fr: "for_resource (extend_field ''log_entries'')
                (SubEndpoint ''incidents'' i1 ''log_entries'') ?ref r1 w1 = (w3, r2, e3)"
            by (cases "for_resource (extend_field ''log_entries'')
                (SubEndpoint ''incidents'' i1 ''log_entries'') ?ref r1 w1") auto
          have "\<exists>n. requested w3 = requested w1 @
                  map (\<lambda>i. (SubEndpoint ''incidents'' i1 ''log_entries'',
                             AList.update ''offset'' (JInt (0 + int i * 100)) (heap w1 ?ref))) [0..<Suc n]
                \<and> heap w3 = (heap w1)(?ref := AList.update ''offset'' (JInt (0 + int n * 100)) (heap w1 ?ref))
                \<and> next_ref w3 = next_ref w1"
            by (rule for_resource_requests [OF fr]) (simp_all add: h1 substream_params_def)
          then obtain n where n:
            "requested w3 = requested w @ map (?L i1) [0..<Suc n]"
            "heap w3 ?ref = AList.update ''offset'' (JInt (100 * int n)) ?sp"
            unfolding h1 rq1 by (auto simp: mult.commute simp del: upt_Suc)
          have logs: "requested w' = requested w3 \<Longrightarrow> ?thesis"
          proof -
            assume "requested w' = requested w3"
            then have "requested w' = requested w @ map (?L i1) [0..<Suc n] @ map (?A JNull (Suc n)) [0..<0]
                         \<and> ((0::nat) < 0 \<longrightarrow> 0 < Suc n)"
              using n(1) by simp
            then show ?thesis by blast
          qed
          show ?thesis
          proof (cases e3)
            case (Some e)
            then have "w' = w3"
              using assms v kk r1 i1 fr by (simp add: process_incident_def Let_def w1_def)
            then show ?thesis using logs by simp
          next
            case None
            show ?thesis
            proof (cases "set_item r2 ''alerts'' (JList [])")
              case (Inl e)
              then have "w' = w3"
                using assms v kk r1 i1 fr None by (simp add: process_incident_def Let_def w1_def)
              then show ?thesis using logs by simp
            next
              case r3: (Inr r3)
              show ?thesis
              proof (cases "py_get r3 ''id''")
                case (Inl e)
                then have "w' = w3"
                  using assms v kk r1 i1 fr None r3 by (simp add: process_incident_def Let_def w1_def)
                then show ?thesis using logs by simp
              next
                case i3: (Inr i3)
                obtain w5 acc e5 where fa: "for_resource (alerts_body C current kk)
                      (SubEndpoint ''incidents'' i3 ''alerts'') ?ref (r3, st) w3 = (w5, acc, e5)"
                  by (cases "for_resource (alerts_body C current kk)
                      (SubEndpoint ''incidents'' i3 ''alerts'') ?ref (r3, st) w3") auto
                have w5: "w' = w5"
                  using assms v kk r1 i1 fr None r3 i3 fa
                  by (simp add: process_incident_def Let_def w1_def)
                have "\<exists>n2. requested w5 = requested w3 @
                        map (\<lambda>i. (SubEndpoint ''incidents'' i3 ''alerts'',
                                   AList.update ''offset'' (JInt (100 * int n + int i * 100)) (heap w3 ?ref)))
                            [0..<Suc n2]
                      \<and> heap w5 = (heap w3)(?ref :=
                            AList.update ''offset'' (JInt (100 * int n + int n2 * 100)) (heap w3 ?ref))
                      \<and> next_ref w5 = next_ref w3"
                  by (rule for_resource_requests [OF fa])
                     (simp_all add: n(2) update_conv' substream_params_def)
                then obtain n2 where n2: "requested w5 = requested w3 @
                        map (\<lambda>i. (SubEndpoint ''incidents'' i3 ''alerts'',
                                   AList.update ''offset'' (JInt (100 * int n + int i * 100)) (heap w3 ?ref)))
                            [0..<Suc n2]"
                  by blast
                have "requested w5 = requested w @ map (?L i1) [0..<Suc n] @ map (?A i3 (Suc n)) [0..<Suc n2]"
                  unfolding n2 n(1) n(2) by (simp add: mult.commute del: upt_Suc)
                then have "requested w' = requested w @ map (?L i1) [0..<Suc n] @ map (?A i3 (Suc n)) [0..<Suc n2]
                             \<and> (0 < Suc n2 \<longrightarrow> 0 < Suc n)"
                  using w5 by simp
                then show ?thesis by blast
              qed
            qed
          qed
        qed
      qed
    qed
  qed
qed

theorem alerts_offset_left_over_witness:
  "(\<exists>i1 i3 k m.
      requested (fst (process_incident demo_collab None incident_P1 start_state (world0 two_by_two [])))
        = requested (world0 two_by_two [])
          @ map (\<lambda>j. (SubEndpoint ''incidents'' i1 ''log_entries'',
                      AList.update ''offset'' (JInt (100 * int j)) substream_params)) [0..<k]
          @ map (\<lambda>j. (SubEndpoint ''incidents'' i3 ''alerts'',
                      AList.update ''offset'' (JInt (100 * (int k - 1) + 100 * int j)) substream_params))
                [0..<m]
      \<and> (0 < m \<longrightarrow> 0 < k))
   \<and> map (\<lambda>q. (fst q, dict_get (snd q) ''offset''))
         (requested (fst (process_incident demo_collab None incident_P1 start_state
                            (world0 two_by_two []))))
       = [(SubEndpoint ''incidents'' (JStr ''P1'') ''log_entries'', JInt 0),
          (SubEndpoint ''incidents'' (JStr ''P1'') ''log_entries'', JInt 100),
          (SubEndpoint ''incidents'' (JStr ''P1'') ''alerts'', JInt 100),
          (SubEndpoint ''incidents'' (JStr ''P1'') ''alerts'', JInt 200)]"
proof
  show "\<exists>i1 i3 k m.
      requested (fst (process_incident demo_collab None incident_P1 start_state (world0 two_by_two [])))
        = requested (world0 two_by_two [])
          @ map (\<lambda>j. (SubEndpoint ''incidents'' i1 ''log_entries'',
                      AList.update ''offset'' (JInt (100 * int j)) substream_params)) [0..<k]
          @ map (\<lambda>j. (SubEndpoint ''incidents'' i3 ''alerts'',
                      AList.update ''offset'' (JInt (100 * (int k - 1) + 100 * int j)) substream_params))
                [0..<m]
      \<and> (0 < m \<longrightarrow> 0 < k)"
    by (rule alerts_offset_left_over [of demo_collab None incident_P1 start_state "world0 two_by_two []"
               _ "fst (snd (process_incident demo_collab None incident_P1 start_state (world0 two_by_two [])))"
                 "snd (snd (process_incident demo_collab None incident_P1 start_state (world0 two_by_two [])))"])
       simp
  show "map (\<lambda>q. (fst q, dict_get (snd q) ''offset''))
         (requested (fst (process_incident demo_collab None incident_P1 start_state
                            (world0 two_by_two []))))
       = [(SubEndpoint ''incidents'' (JStr ''P1'') ''log_entries'', JInt 0),
          (SubEndpoint ''incidents'' (JStr ''P1'') ''log_entries'', JInt 100),
          (SubEndpoint ''incidents'' (JStr ''P1'') ''alerts'', JInt 100),
          (SubEndpoint ''incidents'' (JStr ''P1'') ''alerts'', JInt 200)]"
    by code_simp
qed

section \<open>On-call records\<close>

text \<open>
  C9. (1) An on-call record whose \<open>start\<close> is absent (or null, or empty) is passed over:
  nothing is written and the running bookmark stays as it is. (2) For a record with a
  non-empty \<open>start\<close> string \<open>s\<close> that parses to \<open>k\<close>, a schedule with the string id \<open>i\<close> and
  the \<open>end\<close> string \<open>e\<close>, the record that is filtered and, if it passes, handed to the
  transformer and written is the record with \<open>id\<close> set to \<open>i + s + e\<close>.
\<close>

theorem oncall_skip_and_id:
  "(\<not> py_truthy (dict_get d ''start'') \<longrightarrow> process_oncall C current (JObj d) st = (st, None))
   \<and> (map_of d ''schedule'' = Some sched \<and> py_item sched ''id'' = Inr (JStr i)
        \<and> map_of d ''start'' = Some (JStr s) \<and> s \<noteq> [] \<and> map_of d ''end'' = Some (JStr e)
        \<and> parse C s = Some k
        \<longrightarrow> process_oncall C current (JObj d) st =
              (if passes current k
               then emit C (JObj (AList.update ''id'' (JStr (i @ s @ e)) d)) k st
               else (st, None)))"
  by (auto simp: process_oncall_def py_get_def dict_get_def py_truthy_def oncall_id_def py_item_def
                 dict_item_def set_item_def py_parse_def)

theorem oncall_skip_and_id_witness:
  "process_oncall demo_collab None
      (JObj [(''escalation_policy'', JObj [(''id'', JStr ''E1'')]), (''start'', JNull)]) start_state
     = (start_state, None)
   \<and> process_oncall demo_collab None
        (JObj [(''schedule'', JObj [(''id'', JStr ''S1'')]),
               (''start'', JStr ''2024-01-02T00:00:00Z''),
               (''end'', JStr ''2024-01-03T00:00:00Z'')]) start_state
     = (\<lparr>sink = [(JObj [(''schedule'', JObj [(''id'', JStr ''S1'')]),
                         (''start'', JStr ''2024-01-02T00:00:00Z''),
                         (''end'', JStr ''2024-01-03T00:00:00Z''),
                         (''id'', JStr ''S12024-01-02T00:00:00Z2024-01-03T00:00:00Z'')],
                   JObj [(''schedule'', JObj [(''id'', JStr ''S1'')]),
                         (''start'', JStr ''2024-01-02T00:00:00Z''),
                         (''end'', JStr ''2024-01-03T00:00:00Z''),
                         (''id'', JStr ''S12024-01-02T00:00:00Z2024-01-03T00:00:00Z'')])],
          running = Some \<lparr>instant = 1704153600000000, utcoff = 0\<rparr>\<rparr>, None)"
  using oncall_skip_and_id
          [of "[(''escalation_policy'', JObj [(''id'', JStr ''E1'')]), (''start'', JNull)]"
              demo_collab None start_state]
        oncall_skip_and_id
          [of "[(''schedule'', JObj [(''id'', JStr ''S1'')]),
                (''start'', JStr ''2024-01-02T00:00:00Z''),
                (''end'', JStr ''2024-01-03T00:00:00Z'')]"
              demo_collab None start_state "JObj [(''id'', JStr ''S1'')]" "''S1''"
              "''2024-01-02T00:00:00Z''" "''2024-01-03T00:00:00Z''"
              "\<lparr>instant = 1704153600000000, utcoff = 0\<rparr>"]
  by (simp add: dict_get_def py_truthy_def py_item_def dict_item_def demo_collab_def passes_def
                emit_def start_state_def update_bookmark_def)

section \<open>Invariants of the sync loops\<close>

text \<open>
  A property of the sync state that the body of the record loop keeps is kept by the three
  loops around it, and a property of what a page loop's body works on is kept by the page
  loop.
\<close>

lemma for_pages_inv:
  assumes "\<And>page a a' e. I a \<Longrightarrow> body page a = (a', e) \<Longrightarrow> I a'"
    and "I acc"
    and "for_pages body pr acc w = (w', acc', err)"
  shows "I acc'"
  using assms
proof (induction body pr acc w rule: for_pages.induct)
  case (1 body pr acc w)
  note step = "1.prems"(1)
  obtain w1 x where nx: "PagerdutyResponse_next pr w = (w1, x)"
    by (cases "PagerdutyResponse_next pr w") auto
  show ?case
  proof (cases x)
    case (Yield pr1)
    obtain acc1 r where b: "body (pr_response pr1) acc = (acc1, r)"
      by (cases "body (pr_response pr1) acc") auto
    have i1: "I acc1" using step [OF "1.prems"(2) b] .
    show ?thesis
    proof (cases r)
      case None
      then have "for_pages body pr1 acc1 w1 = (w', acc', err)"
        using "1.prems"(3) nx Yield b by (subst (asm) for_pages.simps) simp
      then show ?thesis using "1.IH" [OF nx [symmetric] Yield b [symmetric] None step i1] by simp
    next
      case (Some e)
      then have "acc' = acc1" using "1.prems"(3) nx Yield b by (subst (asm) for_pages.simps) simp
      then show ?thesis using i1 by simp
    qed
  next
    case StopIteration
    then have "acc' = acc" using "1.prems"(3) nx by (subst (asm) for_pages.simps) simp
    then show ?thesis using "1.prems"(2) by simp
  next
    case (Raise e)
    then have "acc' = acc" using "1.prems"(3) nx by (subst (asm) for_pages.simps) simp
    then show ?thesis using "1.prems"(2) by simp
  qed
qed






section \<open>The running bookmark\<close>











text \<open>
  How the processing of one incident record ends: either with an exception before the
  alerts are fetched, nothing written; or in the alerts page loop, after the log entries
  were collected.
\<close>

lemma process_incident_run:
  assumes "process_incident C current r st w = (w', st', err)"
  shows "(st' = st \<and> err \<noteq> None)
       \<or> (\<exists>v k r1 i1 w3 r2 r3 i3 acc.
             py_get r ''created_at'' = Inr v \<and> py_parse C v = Inr k
           \<and> set_item r ''log_entries'' (JList []) = Inr r1
           \<and> for_resource (extend_field ''log_entries'')
                 (SubEndpoint ''incidents'' i1 ''log_entries'') (next_ref w) r1
                 (w\<lparr>heap := (heap w)(next_ref w := substream_params), next_ref := next_ref w + 1\<rparr>)
               = (w3, r2, None)
           \<and> set_item r2 ''alerts'' (JList []) = Inr r3
           \<and> for_resource (alerts_body C current k)
                 (SubEndpoint ''incidents'' i3 ''alerts'') (next_ref w) (r3, st) w3
               = (w', acc, err)
           \<and> st' = snd acc)"
  using assms unfolding process_incident_def Let_def
  by (auto split: sum.splits prod.splits option.splits)






definition demo_config :: dict where
  "demo_config = [(''token'', JStr ''secret''), (''since'', JStr ''2024-01-01T00:00:00Z'')]"

definition notification_N1 :: json where
  "notification_N1 = JObj [(''id'', JStr ''N1''), (''started_at'', JStr ''2024-01-02T00:00:00Z'')]"


definition demo_stream :: "stream_id \<Rightarrow> stream" where
  "demo_stream sid = \<lparr>st_id = sid, st_params = 0\<rparr>"

definition demo_world :: "stream_id \<Rightarrow> attempt list \<Rightarrow> (string \<times> dict) list \<Rightarrow> world" where
  "demo_world sid scr bm = fst (PagerdutyStream_init sid demo_config (world0 scr bm))"


definition bookmark_jan1 :: "(string \<times> dict) list" where
  "bookmark_jan1 = [(''notifications'', [(''started_at'', JStr ''2024-01-01T00:00:00Z'')])]"




section \<open>The bookmark filter\<close>

lemma emit_sink:
  "emit C r k st = (st', e) \<Longrightarrow>
     (e = None \<and> (\<exists>t. sink st' = sink st @ [(r, t)])) \<or> (e \<noteq> None \<and> st' = st)"
  by (auto simp: emit_def split: sum.splits)

lemma alerts_body_sink:
  assumes "alerts_body C current k page a = (a', e)"
  shows "(passes current k \<and> e = None \<longrightarrow> (\<exists>x. sink (snd a') = sink (snd a) @ [x]))
       \<and> (\<not> passes current k \<or> e \<noteq> None \<longrightarrow> snd a' = snd a)"
proof -
  obtain r1 e1 where ef: "extend_field ''alerts'' page (fst a) = (r1, e1)"
    by (cases "extend_field ''alerts'' page (fst a)") auto
  show ?thesis
  proof (cases "e1 = None \<and> passes current k")
    case True
    obtain st1 err where em: "emit C r1 k (snd a) = (st1, err)"
      by (cases "emit C r1 k (snd a)") auto
    have "a' = (r1, st1)" "e = err" using assms ef True em by (simp_all add: alerts_body_def)
    then show ?thesis using emit_sink [OF em] True by auto
  next
    case False
    then have "snd a' = snd a \<and> (passes current k \<longrightarrow> e \<noteq> None)"
      using assms ef by (cases e1) (auto simp: alerts_body_def)
    then show ?thesis by auto
  qed
qed

text \<open>
  The alerts page loop of one incident record writes the record at least once when it
  passes the filter and the loop ends without an exception, and never when it does not pass.
\<close>

lemma alerts_loop_sink:
  assumes "for_resource (alerts_body C current k) u ref (r, st) w = (w', acc, None)"
  shows "\<exists>new. sink (snd acc) = sink st @ new \<and> (new \<noteq> [] \<longleftrightarrow> passes current k)"
proof -
  let ?body = "alerts_body C current k"
  obtain w1 pages where lr: "PagerdutyStream_list_resource u ref w = (w1, Inr pages)"
    and run: "for_pages ?body (PagerdutyResponse_iter pages) (r, st) w1 = (w', acc, None)"
    using assms by (auto simp: for_resource_def split: prod.splits sum.splits)
  let ?pr = "PagerdutyResponse_iter pages"
  have nx: "PagerdutyResponse_next ?pr w1 = (w1, Yield (?pr\<lparr>pr_iteration := 1\<rparr>))"
    by (rule next_first) (simp add: PagerdutyResponse_iter_def)
  obtain a1 e1 where b: "?body (pr_response (?pr\<lparr>pr_iteration := 1\<rparr>)) (r, st) = (a1, e1)"
    by (cases "?body (pr_response (?pr\<lparr>pr_iteration := 1\<rparr>)) (r, st)") auto
  have e1: "e1 = None"
    using run nx b by (subst (asm) for_pages.simps) (cases e1; simp)
  then have rest: "for_pages ?body (?pr\<lparr>pr_iteration := 1\<rparr>) a1 w1 = (w', acc, None)"
    using run nx b by (subst (asm) for_pages.simps) simp
  show ?thesis
  proof (cases "passes current k")
    case True
    then obtain x where x: "sink (snd a1) = sink st @ [x]"
      using alerts_body_sink [OF b] e1 by auto
    have "\<exists>more. sink (snd acc) = sink (snd a1) @ more"
    proof (rule for_pages_inv [of "\<lambda>a. \<exists>more. sink (snd a) = sink (snd a1) @ more", OF _ _ rest])
      fix page a a' e
      assume "\<exists>more. sink (snd a) = sink (snd a1) @ more" and "?body page a = (a', e)"
      then show "\<exists>more. sink (snd a') = sink (snd a1) @ more"
        using alerts_body_sink [of C current k page a a' e] by (cases "e = None") auto
    next
      show "\<exists>more. sink (snd a1) = sink (snd a1) @ more" by simp
    qed
    then show ?thesis using x True by auto
  next
    case False
    have "snd acc = st"
    proof (rule for_pages_inv [of "\<lambda>a. snd a = st", OF _ _ run])
      fix page a a' e
      assume "snd a = st" and "?body page a = (a', e)"
      then show "snd a' = st" using alerts_body_sink [of C current k page a a' e] False by auto
    next
      show "snd (r, st) = st" by simp
    qed
    then show ?thesis using False by simp
  qed
qed

text \<open>
  C1 (as amended). Take a record of an incremental stream that is processed without an
  exception and whose replication-key field holds \<open>v\<close>. (1) An on-call record whose \<open>start\<close>
  is absent, null or empty is not written, whatever the bookmark. (2) Otherwise \<open>v\<close> parses
  to a timestamp \<open>k\<close>, and the record is written (at least once) if and only if no
  bookmark was read at the start of the sync or \<open>k\<close> is at or after it.
\<close>

theorem bookmark_filter:
  assumes "sid \<in> {Incidents, Notifications, Oncalls}"
    and "process_record C sid current r st w = (w', st', None)"
    and "py_get r (replication_key sid) = Inr v"
  shows "(sid = Oncalls \<and> \<not> py_truthy v \<longrightarrow> st' = st)
       \<and> (sid \<noteq> Oncalls \<or> py_truthy v \<longrightarrow>
            (\<exists>k new. py_parse C v = Inr k \<and> sink st' = sink st @ new
                      \<and> (new \<noteq> [] \<longleftrightarrow> passes current k)))"
proof -
  consider "sid = Incidents" | "sid = Notifications" | "sid = Oncalls" using assms(1) by auto
  then show ?thesis
  proof cases
    case 1
    then have run: "process_incident C current r st w = (w', st', None)"
      and v: "py_get r ''created_at'' = Inr v"
      using assms(2,3) by (simp_all add: process_record_def)
    from process_incident_run [OF run] v
    obtain k r3 i3 w3 acc where k: "py_parse C v = Inr k"
      and loop: "for_resource (alerts_body C current k)
                   (SubEndpoint ''incidents'' i3 ''alerts'') (next_ref w) (r3, st) w3 = (w', acc, None)"
      and st': "st' = snd acc"
      by auto
    from alerts_loop_sink [OF loop] k st' 1 show ?thesis by auto
  next
    case 2
    then have run: "process_notification C current r st = (st', None)"
      and v: "py_get r ''started_at'' = Inr v"
      using assms(2,3) by (auto simp: process_record_def split: prod.splits)
    then obtain k where k: "py_parse C v = Inr k"
      and e: "if passes current k then emit C r k st = (st', None) else st' = st"
      by (auto simp: process_notification_def split: sum.splits if_splits)
    show ?thesis
    proof (cases "passes current k")
      case True
      then show ?thesis using e emit_sink [of C r k st st' None] k 2 by auto
    next
      case False
      then show ?thesis using e k 2 by auto
    qed
  next
    case 3
    then have run: "process_oncall C current r st = (st', None)"
      and v: "py_get r ''start'' = Inr v"
      using assms(2,3) by (auto simp: process_record_def split: prod.splits)
    show ?thesis
    proof (cases "py_truthy v")
      case False
      then have "st' = st" using run v by (simp add: process_oncall_def)
      then show ?thesis using False 3 by simp
    next
      case True
      then obtain k r1 where k: "py_parse C v = Inr k"
        and e: "if passes current k then emit C r1 k st = (st', None) else st' = st"
        using run v by (auto simp: process_oncall_def split: sum.splits if_splits)
      show ?thesis
      proof (cases "passes current k")
        case p: True
        then show ?thesis using e emit_sink [of C r1 k st st' None] k True by auto
      next
        case p: False
        then show ?thesis using e k True by auto
      qed
    qed
  qed
qed


definition oncall_permanent :: json where
  "oncall_permanent =
     JObj [(''user'', JObj [(''id'', JStr ''U1'')]), (''schedule'', JNull),
           (''start'', JNull), (''end'', JNull)]"

definition oncall_shift :: json where
  "oncall_shift =
     JObj [(''user'', JObj [(''id'', JStr ''U2'')]), (''schedule'', JObj [(''id'', JStr ''S1'')]),
           (''start'', JStr ''2024-01-02T00:00:00Z''), (''end'', JStr ''2024-01-08T00:00:00+00:00'')]"

definition two_oncalls :: "attempt list" where
  "two_oncalls =
     [ok_attempt [(''oncalls'', JList [oncall_permanent, oncall_shift]), (''more'', JBool False)]]"

theorem bookmark_filter_witness:
  "fst (snd (process_record demo_collab Oncalls None oncall_permanent start_state (world0 [] [])))
     = start_state
   \<and> (\<exists>k new. py_parse demo_collab (JStr ''2024-01-02T00:00:00Z'') = Inr k
         \<and> sink (fst (snd (process_record demo_collab Notifications
                              (Some \<lparr>instant = 1704067200000000, utcoff = 0\<rparr>)
                              notification_N1 start_state (world0 [] []))))
             = sink start_state @ new
         \<and> (new \<noteq> [] \<longleftrightarrow> passes (Some \<lparr>instant = 1704067200000000, utcoff = 0\<rparr>) k))"
proof -
  let ?a = "process_record demo_collab Oncalls None oncall_permanent start_state (world0 [] [])"
  let ?b = "process_record demo_collab Notifications (Some \<lparr>instant = 1704067200000000, utcoff = 0\<rparr>)
              notification_N1 start_state (world0 [] [])"
  have ea: "snd (snd ?a) = None" by code_simp
  have eb: "snd (snd ?b) = None" by code_simp
  have ra: "?a = (fst ?a, fst (snd ?a), None)" using ea by (simp add: prod_eq_iff)
  have rb: "?b = (fst ?b, fst (snd ?b), None)" using eb by (simp add: prod_eq_iff)
  have va: "py_get oncall_permanent (replication_key Oncalls) = Inr JNull"
    by (simp add: oncall_permanent_def py_get_def dict_get_def)
  have vb: "py_get notification_N1 (replication_key Notifications) = Inr (JStr ''2024-01-02T00:00:00Z'')"
    by (simp add: notification_N1_def py_get_def dict_get_def)
  show ?thesis
    using bookmark_filter [OF _ ra va] bookmark_filter [OF _ rb vb]
    by (simp add: py_truthy_def)
qed

text \<open>
  C1 as stated fails for the on-calls stream. No bookmark is stored; the one page fetched
  holds a permanent on-call, whose \<open>start\<close> is null, and a scheduled shift. The sync ends
  without an exception and has written the shift only.
\<close>

theorem bookmark_filter_counterexample:
  "read_bookmark demo_collab (demo_stream Oncalls) (demo_world Oncalls two_oncalls []) = Inr None
   \<and> map fst (sink (fst (snd (sync demo_collab (demo_stream Oncalls)
                               (demo_world Oncalls two_oncalls [])))))
       = [JObj [(''user'', JObj [(''id'', JStr ''U2'')]), (''schedule'', JObj [(''id'', JStr ''S1'')]),
                (''start'', JStr ''2024-01-02T00:00:00Z''), (''end'', JStr ''2024-01-08T00:00:00+00:00''),
                (''id'', JStr ''S12024-01-02T00:00:00Z2024-01-08T00:00:00+00:00'')]]
   \<and> snd (snd (sync demo_collab (demo_stream Oncalls) (demo_world Oncalls two_oncalls []))) = None"
  by code_simp

section \<open>Emission of incident records\<close>

definition incident_run :: "attempt list" where
  "incident_run =
     ok_attempt [(''incidents'', JList [incident_P1]), (''more'', JBool False)] # two_by_two"

text \<open>
  C4 fails on the code. One incident, \<open>P1\<close>, is fetched, with no bookmark stored; its alerts
  come in two pages. The sync ends without an exception and has written \<open>P1\<close> twice: once
  with the alerts of the first page and once with the alerts of both.
\<close>

theorem incident_written_per_alerts_page:
  "map (\<lambda>x. (py_get (fst x) ''id'', py_get (fst x) ''alerts''))
       (sink (fst (snd (sync demo_collab (demo_stream Incidents)
                          (demo_world Incidents incident_run [])))))
     = [(Inr (JStr ''P1''), Inr (JList [JStr ''a1''])),
        (Inr (JStr ''P1''), Inr (JList [JStr ''a1'', JStr ''a2'']))]
   \<and> snd (snd (sync demo_collab (demo_stream Incidents) (demo_world Incidents incident_run []))) = None"
  by code_simp

section \<open>A sync that writes nothing\<close>

definition empty_page :: "attempt list" where
  "empty_page = [ok_attempt [(''notifications'', JList []), (''more'', JBool False)]]"

text \<open>
  C5 fails on the code. A bookmark is stored for the notifications stream and the API
  returns no record. The sync ends with AttributeError, raised by
  \<open>running_bookmark_dtime.isoformat()\<close> on None; the stored bookmark is as it was.
\<close>

theorem empty_sync_raises:
  "snd (snd (sync demo_collab (demo_stream Notifications)
               (demo_world Notifications empty_page bookmark_jan1))) = Some AttributeError
   \<and> sink (fst (snd (sync demo_collab (demo_stream Notifications)
                       (demo_world Notifications empty_page bookmark_jan1)))) = []
   \<and> bookmarks (fst (sync demo_collab (demo_stream Notifications)
                       (demo_world Notifications empty_page bookmark_jan1))) = bookmark_jan1"
  by code_simp

section \<open>Windows\<close>

definition offset_collab :: collab where
  "offset_collab =
     \<lparr>parse = map_of
        [(''2024-01-01T02:00:00+05:00'', \<lparr>instant = 1704056400000000, utcoff = 300\<rparr>),
         (''2024-01-08T01:00:00+00:00'', \<lparr>instant = 1704675600000000, utcoff = 0\<rparr>)],
      transform = Inr\<rparr>"

definition offset_config :: dict where
  "offset_config =
     [(''since'', JStr ''2024-01-01T02:00:00+05:00''),
      (''streams'', JObj [(''incidents'', JObj [(''until'', JStr ''2024-01-08T01:00:00+00:00'')])])]"

definition no_incidents :: attempt where
  "no_incidents = ok_attempt [(''incidents'', JList []), (''more'', JBool False)]"

definition offset_world :: world where
  "offset_world =
     fst (PagerdutyStream_init Incidents offset_config
            (world0 [no_incidents, no_incidents, no_incidents] []))"

text \<open>
  C3 fails on the code. The configuration gives \<open>since\<close> as 2024-01-01T02:00 at UTC+5 and
  \<open>until\<close> as 2024-01-08T01:00 at UTC, seven days and four hours later; the span of the
  incidents stream is seven days. The windows due are \<open>[since, since + 7 days)\<close> and
  \<open>[since + 7 days, until)\<close>. The loop takes the smaller of the two formatted strings
  \<open>2024-01-08T02:00:00+05:00\<close> and \<open>2024-01-08T01:00:00+00:00\<close> as the end of the first
  window, which is \<open>until\<close>: the first request covers the whole range, seven days and four
  hours, and the second covers its last four hours again.
\<close>

theorem windows_overlap:
  "map (\<lambda>q. (dict_get (snd q) ''since'', dict_get (snd q) ''until''))
       (requested (fst (sync offset_collab (demo_stream Incidents) offset_world)))
     = [(JStr ''2024-01-01T02:00:00+05:00'', JStr ''2024-01-08T01:00:00+00:00''),
        (JStr ''2024-01-08T02:00:00+05:00'', JStr ''2024-01-08T01:00:00+00:00'')]
   \<and> isoformat \<lparr>instant = 1704056400000000 + timedelta_days 7, utcoff = 300\<rparr>
       = ''2024-01-08T02:00:00+05:00''
   \<and> 1704056400000000 + timedelta_days 7 < (1704675600000000 :: int)"
  by code_simp


section \<open>Retries\<close>

text \<open>The failures the two retry loops handle.\<close>

definition network_failure :: "attempt \<Rightarrow> bool" where
  "network_failure a = (outcome a = ConnFail \<or> outcome a = TimedOut)"

definition retryable_status :: "nat \<Rightarrow> bool" where
  "retryable_status st = (500 \<le> st \<and> st < 600 \<or> st = 429)"

definition http_failure :: "attempt \<Rightarrow> bool" where
  "http_failure a = (case outcome a of Response st body \<Rightarrow> retryable_status st | _ \<Rightarrow> False)"

text \<open>
  The longest a run of failed attempts and the sleeps after them can take, from the
  \<open>n\<close>-th sleep of a loop on: the attempts' own durations and one Fibonacci number of
  seconds after each.
\<close>

fun need :: "nat \<Rightarrow> attempt list \<Rightarrow> int" where
  "need n [] = 0"
| "need n (a # as) = int (took a) + int (fibo n * 1000000) + need (Suc n) as"

lemma need_nonneg: "0 \<le> need n as"
  by (induction as arbitrary: n) auto

lemma next_wait_bounds:
  "elapsed < max_time \<Longrightarrow> 0 \<le> next_wait n drawn elapsed \<and> next_wait n drawn elapsed \<le> int (fibo n * 1000000)"
  by (auto simp: next_wait_def min_def)

lemma get_once_network:
  "network_failure a \<Longrightarrow> get_once a = Inl ConnectionError \<or> get_once a = Inl Timeout"
  by (auto simp: network_failure_def get_once_def)

lemma get_once_http:
  "http_failure a \<Longrightarrow> \<exists>st. get_once a = Inl (HTTPError st) \<and> retryable_status st"
  by (auto simp: http_failure_def get_once_def raise_for_status_def retryable_status_def
           split: net_outcome.splits)

lemma retryable_not_fatal: "retryable_status st \<Longrightarrow> \<not> is_fatal_code st"
  by (auto simp: retryable_status_def is_fatal_code_def)

lemma retry_network_success:
  assumes "\<forall>a \<in> set fs. network_failure a" "get_once b = Inr d"
    and "now - start + need n fs < max_time"
  shows "\<exists>t. retry_network start n (fs @ b # rest) now = (rest, t, Inr d)
           \<and> t \<le> now + need n fs + int (took b)"
  using assms
proof (induction fs arbitrary: n now)
  case Nil
  then show ?case by (simp add: Let_def)
next
  case (Cons a fs)
  let ?el = "now - start"
  let ?now' = "now + int (took a) + next_wait n (next_draw (fs @ b # rest)) ?el"
  have nn: "0 \<le> need (Suc n) fs" by (rule need_nonneg)
  have el: "?el < max_time" using Cons.prems(3) nn by simp
  have w: "0 \<le> next_wait n (next_draw (fs @ b # rest)) ?el"
    "next_wait n (next_draw (fs @ b # rest)) ?el \<le> int (fibo n * 1000000)"
    using next_wait_bounds [OF el] by auto
  have step: "retry_network start n ((a # fs) @ b # rest) now
                = retry_network start (Suc n) (fs @ b # rest) ?now'"
    using get_once_network [of a] Cons.prems(1) el by (auto simp: Let_def)
  have "?now' - start + need (Suc n) fs < max_time" using Cons.prems(3) w by simp
  then obtain t where t: "retry_network start (Suc n) (fs @ b # rest) ?now' = (rest, t, Inr d)"
    "t \<le> ?now' + need (Suc n) fs + int (took b)"
    using Cons.IH [of ?now' "Suc n"] Cons.prems(1,2) by auto
  have "t \<le> now + need n (a # fs) + int (took b)" using t(2) w by simp
  then show ?case using step t(1) by simp
qed

lemma retry_http_failure_step:
  assumes "http_failure a"
  shows "\<exists>st. get_once a = Inl (HTTPError st) \<and> retryable_status st
            \<and> retry_http start n (a # rest) now =
                (if max_time \<le> now - start then (rest, now + int (took a), Inl (HTTPError st))
                 else retry_http start (Suc n) rest
                        (now + int (took a) + next_wait n (next_draw rest) (now - start)))"
proof -
  obtain st where st: "get_once a = Inl (HTTPError st)" "retryable_status st"
    using get_once_http [OF assms] by blast
  have "retry_network now 0 (a # rest) now = (rest, now + int (took a), Inl (HTTPError st))"
    using st(1) by (simp add: Let_def)
  then have "retry_http start n (a # rest) now =
                (if max_time \<le> now - start then (rest, now + int (took a), Inl (HTTPError st))
                 else retry_http start (Suc n) rest
                        (now + int (took a) + next_wait n (next_draw rest) (now - start)))"
    using retryable_not_fatal [OF st(2)] by (subst retry_http.simps) (simp add: Let_def)
  then show ?thesis using st by blast
qed

lemma retry_http_success:
  assumes "\<forall>a \<in> set fs. http_failure a" "get_once b = Inr d"
    and "now - start + need n fs < max_time"
  shows "\<exists>t. retry_http start n (fs @ b # rest) now = (rest, t, Inr d)
           \<and> t \<le> now + need n fs + int (took b)"
  using assms
proof (induction fs arbitrary: n now)
  case Nil
  then show ?case using retry_http_ok [of b d start n rest now] by simp
next
  case (Cons a fs)
  let ?el = "now - start"
  let ?now' = "now + int (took a) + next_wait n (next_draw (fs @ b # rest)) ?el"
  have nn: "0 \<le> need (Suc n) fs" by (rule need_nonneg)
  have el: "?el < max_time" using Cons.prems(3) nn by simp
  have w: "0 \<le> next_wait n (next_draw (fs @ b # rest)) ?el"
    "next_wait n (next_draw (fs @ b # rest)) ?el \<le> int (fibo n * 1000000)"
    using next_wait_bounds [OF el] by auto
  have step: "retry_http start n ((a # fs) @ b # rest) now
                = retry_http start (Suc n) (fs @ b # rest) ?now'"
    using retry_http_failure_step [of a start n "fs @ b # rest" now] Cons.prems(1) el by auto
  have "?now' - start + need (Suc n) fs < max_time" using Cons.prems(3) w by simp
  then obtain t where t: "retry_http start (Suc n) (fs @ b # rest) ?now' = (rest, t, Inr d)"
    "t \<le> ?now' + need (Suc n) fs + int (took b)"
    using Cons.IH [of ?now' "Suc n"] Cons.prems(1,2) by auto
  have "t \<le> now + need n (a # fs) + int (took b)" using t(2) w by simp
  then show ?case using step t(1) by simp
qed


lemma network_failure_iff:
  "network_failure a \<longleftrightarrow> get_once a = Inl ConnectionError \<or> get_once a = Inl Timeout"
  by (auto simp: network_failure_def get_once_def raise_for_status_def
           split: net_outcome.splits option.splits if_splits)

lemma http_failure_iff:
  "http_failure a \<longleftrightarrow> (\<exists>st. get_once a = Inl (HTTPError st) \<and> \<not> is_fatal_code st)"
  by (auto simp: http_failure_def retryable_status_def is_fatal_code_def get_once_def
                 raise_for_status_def
           split: net_outcome.splits option.splits if_splits)

text \<open>
  The attempts a retry loop uses up are a run of failures it handles, followed by the
  attempt whose result it returns; unless the script ends first.
\<close>

definition run_shape :: "(attempt \<Rightarrow> bool) \<Rightarrow> attempt list \<Rightarrow> attempt list \<Rightarrow> error + dict \<Rightarrow> bool" where
  "run_shape handled used rest r =
     ((r = Inl ScriptEnd \<and> rest = [] \<and> (\<forall>a \<in> set used. handled a))
      \<or> (\<exists>pre l. used = pre @ [l] \<and> (\<forall>a \<in> set pre. handled a) \<and> get_once l = r))"

lemma run_shape_Cons:
  "handled a \<Longrightarrow> run_shape handled used rest r \<Longrightarrow> run_shape handled (a # used) rest r"
  unfolding run_shape_def by (metis append_Cons set_ConsD)

lemma run_shape_single: "get_once a = r \<Longrightarrow> run_shape handled [a] rest r"
  unfolding run_shape_def by (metis append_Nil empty_iff list.set(1))

lemma run_shape_mono:
  "(\<And>a. h1 a \<Longrightarrow> h2 a) \<Longrightarrow> run_shape h1 used rest r \<Longrightarrow> run_shape h2 used rest r"
  unfolding run_shape_def by blast

lemma run_shape_append:
  assumes "run_shape h1 used1 rest1 (Inl (HTTPError st))" "h2 (last used1)" "\<And>a. h1 a \<Longrightarrow> h2 a"
    and "run_shape h2 used2 rest r"
  shows "run_shape h2 (used1 @ used2) rest r"
proof -
  obtain pre l where u1: "used1 = pre @ [l]" "\<forall>a \<in> set pre. h1 a"
    using assms(1) by (auto simp: run_shape_def)
  have all: "\<forall>a \<in> set used1. h2 a" using u1 assms(2,3) by auto
  from assms(4) show ?thesis
    unfolding run_shape_def
  proof
    assume "r = Inl ScriptEnd \<and> rest = [] \<and> (\<forall>a \<in> set used2. h2 a)"
    then show "(r = Inl ScriptEnd \<and> rest = [] \<and> (\<forall>a \<in> set (used1 @ used2). h2 a))
             \<or> (\<exists>pre l. used1 @ used2 = pre @ [l] \<and> (\<forall>a \<in> set pre. h2 a) \<and> get_once l = r)"
      using all by auto
  next
    assume "\<exists>pre l. used2 = pre @ [l] \<and> (\<forall>a \<in> set pre. h2 a) \<and> get_once l = r"
    then obtain pre2 l2 where "used2 = pre2 @ [l2]" "\<forall>a \<in> set pre2. h2 a" "get_once l2 = r" by blast
    then have "used1 @ used2 = (used1 @ pre2) @ [l2] \<and> (\<forall>a \<in> set (used1 @ pre2). h2 a) \<and> get_once l2 = r"
      using all by auto
    then show "(r = Inl ScriptEnd \<and> rest = [] \<and> (\<forall>a \<in> set (used1 @ used2). h2 a))
             \<or> (\<exists>pre l. used1 @ used2 = pre @ [l] \<and> (\<forall>a \<in> set pre. h2 a) \<and> get_once l = r)"
      by blast
  qed
qed

lemma retry_network_shape:
  "retry_network start n as now = (rest, t, r) \<Longrightarrow>
     \<exists>used. as = used @ rest \<and> run_shape network_failure used rest r"
proof (induction start n as now arbitrary: rest t r rule: retry_network.induct)
  case (1 start n now)
  then show ?case by (simp add: run_shape_def)
next
  case (2 start n a as' now)
  show ?case
  proof (cases "network_failure a \<and> \<not> max_time \<le> now - start")
    case True
    then have "retry_network start (Suc n) as'
                   (now + int (took a) + next_wait n (next_draw as') (now - start)) = (rest, t, r)"
      using "2.prems" by (auto simp: network_failure_iff Let_def)
    moreover obtain e where e: "get_once a = Inl e" "e = ConnectionError \<or> e = Timeout"
      using True by (auto simp: network_failure_iff)
    ultimately obtain used where "as' = used @ rest" "run_shape network_failure used rest r"
      using "2.IH" [OF refl refl e(1) e(2)] True by blast
    then have "a # as' = (a # used) @ rest \<and> run_shape network_failure (a # used) rest r"
      using True run_shape_Cons by simp
    then show ?thesis by blast
  next
    case False
    then have "rest = as' \<and> get_once a = r"
      using "2.prems"
      by (cases "get_once a") (auto simp: network_failure_iff Let_def split: if_splits)
    then have "a # as' = [a] @ rest \<and> run_shape network_failure [a] rest r"
      using run_shape_single by simp
    then show ?thesis by blast
  qed
qed

lemma retry_http_shape:
  "retry_http start n as now = (rest, t, r) \<Longrightarrow>
     \<exists>used. as = used @ rest \<and> run_shape (\<lambda>a. network_failure a \<or> http_failure a) used rest r"
proof (induction start n as now arbitrary: rest t r rule: retry_http.induct)
  case (1 start n as now)
  let ?h = "\<lambda>a. network_failure a \<or> http_failure a"
  obtain rest1 after1 r1 where rn: "retry_network now 0 as now = (rest1, after1, r1)"
    by (cases "retry_network now 0 as now") auto
  obtain used1 where u1: "as = used1 @ rest1" "run_shape network_failure used1 rest1 r1"
    using retry_network_shape [OF rn] by blast
  show ?case
  proof (cases "\<exists>st. r1 = Inl (HTTPError st) \<and> \<not> (is_fatal_code st \<or> max_time \<le> now - start)")
    case True
    then obtain st where st: "r1 = Inl (HTTPError st)" "\<not> (is_fatal_code st \<or> max_time \<le> now - start)"
      by blast
    have "retry_http start (Suc n) rest1 (after1 + next_wait n (next_draw rest1) (now - start)) = (rest, t, r)"
      using "1.prems" rn st by (subst (asm) retry_http.simps) (simp add: Let_def)
    then obtain used2 where u2: "rest1 = used2 @ rest" "run_shape ?h used2 rest r"
      using "1.IH" [OF refl rn [symmetric] refl st(1) refl] st(2) by blast
    obtain pre l where pl: "used1 = pre @ [l]" "get_once l = Inl (HTTPError st)"
      using u1(2) st(1) by (auto simp: run_shape_def)
    have "?h (last used1)" using pl st(2) by (auto simp: http_failure_iff)
    then have "run_shape ?h (used1 @ used2) rest r"
      using run_shape_append [of network_failure used1 rest1 st ?h used2 rest r] u1(2) u2(2) st(1)
      by blast
    then show ?thesis using u1(1) u2(1) by auto
  next
    case False
    then have "rest = rest1" "r = r1"
      using "1.prems" rn
      by (subst (asm) retry_http.simps; auto simp: Let_def split: sum.splits error.splits if_splits)+
    then show ?thesis using u1 run_shape_mono [of network_failure ?h used1 rest1 r1] by blast
  qed
qed


text \<open>
  C6 (as amended). (0) The attempts a call of \<open>_get\<close> uses up are a run of failures that
  were retried, each a network failure (connection error, timeout) or a response with a
  status from 500 to 599 or 429, followed by the one attempt whose result the call returns
  (or by nothing, when the script ends): no other attempt is ever followed by a retry.
  (1) A response with a status from 400 to 499 other than 429 ends \<open>_get\<close> at once with
  HTTPError: one attempt, no sleep. (2) A response with a 2xx status whose body decodes ends
  \<open>_get\<close> at once with the decoded body. (3) A run of network failures, or a run of
  responses with a status from 500 to 599 or 429, followed by a successful attempt, ends
  \<open>_get\<close> with that attempt's body, provided the failed attempts and a sleep of one
  Fibonacci number of seconds (1, 1, 2, 3, 5, ...) after each take less than 120 seconds; no
  sleep is longer than its Fibonacci number. (4) Each of the two retry loops re-raises a
  failure it handles, without a retry, when 120 seconds or more had passed since that loop
  began at the time the failed attempt started. The loop for network failures begins anew
  on every round of the loop for HTTP errors, so the 120 seconds are not a bound for the
  call as a whole.
\<close>

theorem fetcher_classification:
  "(\<forall>w' r. PagerdutyStream_get u ps w = (w', r) \<longrightarrow>
        (\<exists>used. script w = used @ script w'
                \<and> run_shape (\<lambda>f. network_failure f \<or> http_failure f) used (script w') r))
   \<and> (\<forall>st body. script w = a # rest \<and> outcome a = Response st body
        \<and> 400 \<le> st \<and> st < 500 \<and> st \<noteq> 429 \<longrightarrow>
        PagerdutyStream_get u ps w =
          (w\<lparr>script := rest, clock := clock w + int (took a),
             requested := requested w @ [(u, ps)]\<rparr>, Inl (HTTPError st)))
   \<and> (\<forall>st d. script w = a # rest \<and> outcome a = Response st (Some d) \<and> 200 \<le> st \<and> st < 300 \<longrightarrow>
        PagerdutyStream_get u ps w =
          (w\<lparr>script := rest, clock := clock w + int (took a),
             requested := requested w @ [(u, ps)]\<rparr>, Inr d))
   \<and> (script w = fs @ b # rest
        \<and> ((\<forall>f \<in> set fs. network_failure f) \<or> (\<forall>f \<in> set fs. http_failure f))
        \<and> get_once b = Inr d \<and> need 0 fs < max_time \<longrightarrow>
        (\<exists>w'. PagerdutyStream_get u ps w = (w', Inr d) \<and> script w' = rest
              \<and> clock w' \<le> clock w + need 0 fs + int (took b)))
   \<and> (network_failure a \<and> max_time \<le> now - start \<longrightarrow>
        (\<exists>e. retry_network start n (a # rest) now = (rest, now + int (took a), Inl e)
             \<and> (e = ConnectionError \<or> e = Timeout)))
   \<and> (http_failure a \<and> max_time \<le> now - start \<longrightarrow>
        (\<exists>st. retry_http start n (a # rest) now = (rest, now + int (took a), Inl (HTTPError st))))"
proof -
  have c0: "\<forall>w' r. PagerdutyStream_get u ps w = (w', r) \<longrightarrow>
        (\<exists>used. script w = used @ script w'
                \<and> run_shape (\<lambda>f. network_failure f \<or> http_failure f) used (script w') r)"
  proof (intro allI impI)
    fix w' r
    assume g: "PagerdutyStream_get u ps w = (w', r)"
    obtain rest0 t0 where rh: "retry_http (clock w) 0 (script w) (clock w) = (rest0, t0, r)"
      and w': "script w' = rest0"
      using g by (auto simp: PagerdutyStream_get_def split: prod.splits)
    from retry_http_shape [OF rh] w'
    show "\<exists>used. script w = used @ script w'
                \<and> run_shape (\<lambda>f. network_failure f \<or> http_failure f) used (script w') r"
      by simp
  qed
  have c1: "\<forall>st body. script w = a # rest \<and> outcome a = Response st body
        \<and> 400 \<le> st \<and> st < 500 \<and> st \<noteq> 429 \<longrightarrow>
        PagerdutyStream_get u ps w =
          (w\<lparr>script := rest, clock := clock w + int (took a),
             requested := requested w @ [(u, ps)]\<rparr>, Inl (HTTPError st))"
  proof (intro allI impI)
    fix st body
    assume h: "script w = a # rest \<and> outcome a = Response st body \<and> 400 \<le> st \<and> st < 500 \<and> st \<noteq> 429"
    then have g: "get_once a = Inl (HTTPError st)"
      by (simp add: get_once_def raise_for_status_def)
    have "retry_network (clock w) 0 (a # rest) (clock w)
            = (rest, clock w + int (took a), Inl (HTTPError st))"
      using g by (simp add: Let_def)
    then have "retry_http (clock w) 0 (a # rest) (clock w)
            = (rest, clock w + int (took a), Inl (HTTPError st))"
      using h by (subst retry_http.simps) (simp add: Let_def is_fatal_code_def)
    then show "PagerdutyStream_get u ps w =
          (w\<lparr>script := rest, clock := clock w + int (took a),
             requested := requested w @ [(u, ps)]\<rparr>, Inl (HTTPError st))"
      using h by (simp add: PagerdutyStream_get_def)
  qed
  have c2: "\<forall>st d. script w = a # rest \<and> outcome a = Response st (Some d) \<and> 200 \<le> st \<and> st < 300 \<longrightarrow>
        PagerdutyStream_get u ps w =
          (w\<lparr>script := rest, clock := clock w + int (took a),
             requested := requested w @ [(u, ps)]\<rparr>, Inr d)"
  proof (intro allI impI)
    fix st d
    assume h: "script w = a # rest \<and> outcome a = Response st (Some d) \<and> 200 \<le> st \<and> st < 300"
    then have "get_once a = Inr d" by (simp add: get_once_def raise_for_status_def)
    then show "PagerdutyStream_get u ps w =
          (w\<lparr>script := rest, clock := clock w + int (took a),
             requested := requested w @ [(u, ps)]\<rparr>, Inr d)"
      using h get_ok [of w a rest d u ps] by simp
  qed
  have c3: "script w = fs @ b # rest
        \<and> ((\<forall>f \<in> set fs. network_failure f) \<or> (\<forall>f \<in> set fs. http_failure f))
        \<and> get_once b = Inr d \<and> need 0 fs < max_time \<longrightarrow>
        (\<exists>w'. PagerdutyStream_get u ps w = (w', Inr d) \<and> script w' = rest
              \<and> clock w' \<le> clock w + need 0 fs + int (took b))"
  proof
    assume h: "script w = fs @ b # rest
        \<and> ((\<forall>f \<in> set fs. network_failure f) \<or> (\<forall>f \<in> set fs. http_failure f))
        \<and> get_once b = Inr d \<and> need 0 fs < max_time"
    have "\<exists>t. retry_http (clock w) 0 (fs @ b # rest) (clock w) = (rest, t, Inr d)
             \<and> t \<le> clock w + need 0 fs + int (took b)"
    proof (cases "\<forall>f \<in> set fs. http_failure f")
      case True
      then show ?thesis using retry_http_success [of fs b d "clock w" "clock w" 0 rest] h by simp
    next
      case False
      then have nf: "\<forall>f \<in> set fs. network_failure f" using h by blast
      obtain t where t: "retry_network (clock w) 0 (fs @ b # rest) (clock w) = (rest, t, Inr d)"
        "t \<le> clock w + need 0 fs + int (took b)"
        using retry_network_success [of fs b d "clock w" "clock w" 0 rest] nf h by auto
      have "retry_http (clock w) 0 (fs @ b # rest) (clock w) = (rest, t, Inr d)"
        using t(1) by (subst retry_http.simps) (simp add: Let_def)
      then show ?thesis using t(2) by blast
    qed
    then obtain t where t: "retry_http (clock w) 0 (fs @ b # rest) (clock w) = (rest, t, Inr d)"
      "t \<le> clock w + need 0 fs + int (took b)"
      by blast
    have "PagerdutyStream_get u ps w
            = (w\<lparr>script := rest, clock := t, requested := requested w @ [(u, ps)]\<rparr>, Inr d)"
      using h t(1) by (simp add: PagerdutyStream_get_def)
    then show "\<exists>w'. PagerdutyStream_get u ps w = (w', Inr d) \<and> script w' = rest
              \<and> clock w' \<le> clock w + need 0 fs + int (took b)"
      using t(2) by simp
  qed
  have c4: "network_failure a \<and> max_time \<le> now - start \<longrightarrow>
        (\<exists>e. retry_network start n (a # rest) now = (rest, now + int (took a), Inl e)
             \<and> (e = ConnectionError \<or> e = Timeout))"
    using get_once_network [of a] by (auto simp: Let_def)
  have c5: "http_failure a \<and> max_time \<le> now - start \<longrightarrow>
        (\<exists>st. retry_http start n (a # rest) now = (rest, now + int (took a), Inl (HTTPError st)))"
    using retry_http_failure_step [of a start n rest now] by auto
  from c0 c1 c2 c3 c4 c5 show ?thesis by blast
qed

definition slow_500 :: attempt where
  "slow_500 = \<lparr>outcome = Response 500 None, took = 125000000, draw = 0\<rparr>"

definition refused :: attempt where
  "refused = \<lparr>outcome = ConnFail, took = 0, draw = 500000\<rparr>"

definition answered :: attempt where
  "answered = \<lparr>outcome = Response 200 (Some [(''more'', JBool False)]), took = 0, draw = 500000\<rparr>"

text \<open>
  C6 as stated fails. A call of \<open>_get\<close> gets a 500 response after 125 seconds, sleeps half
  a second, and is refused the connection 125.5 seconds after it began. It does not give
  up: the loop for network failures began with this round. It sleeps another half second
  and returns the body of a 200 response, 126 seconds after it began.
\<close>

theorem fetcher_budget_counterexample:
  "snd (PagerdutyStream_get (Endpoint ''users'') [] (world0 [slow_500, refused, answered] []))
     = Inr [(''more'', JBool False)]
   \<and> clock (fst (PagerdutyStream_get (Endpoint ''users'') [] (world0 [slow_500, refused, answered] [])))
     = clock (world0 [slow_500, refused, answered] []) + 126000000"
proof -
  let ?c = "1704672000000000 :: int"
  have s2: "retry_http ?c 1 [refused, answered] (?c + 125500000)
              = ([], ?c + 126000000, Inr [(''more'', JBool False)])"
    by (subst retry_http.simps)
       (simp add: Let_def get_once_def raise_for_status_def refused_def answered_def
                  next_wait_def next_draw_def max_time_def)
  have s1: "retry_http ?c 0 [slow_500, refused, answered] ?c
              = retry_http ?c 1 [refused, answered] (?c + 125500000)"
    by (subst retry_http.simps)
       (simp add: Let_def get_once_def raise_for_status_def slow_500_def refused_def
                  is_fatal_code_def next_wait_def next_draw_def max_time_def)
  show ?thesis
    using s1 s2 by (simp add: PagerdutyStream_get_def world0_def)
qed

theorem fetcher_classification_witness:
  "PagerdutyStream_get (Endpoint ''users'') []
      (world0 [\<lparr>outcome = Response 404 None, took = 5, draw = 0\<rparr>, answered] [])
     = ((world0 [\<lparr>outcome = Response 404 None, took = 5, draw = 0\<rparr>, answered] [])
          \<lparr>script := [answered], clock := 1704672000000005, requested := [(Endpoint ''users'', [])]\<rparr>,
        Inl (HTTPError 404))
   \<and> PagerdutyStream_get (Endpoint ''users'') [] (world0 [answered, refused] [])
     = ((world0 [answered, refused] [])
          \<lparr>script := [refused], clock := 1704672000000000, requested := [(Endpoint ''users'', [])]\<rparr>,
        Inr [(''more'', JBool False)])
   \<and> (\<exists>w'. PagerdutyStream_get (Endpoint ''users'') []
               (world0 [refused, \<lparr>outcome = TimedOut, took = 30000000, draw = 400000\<rparr>, answered] [])
             = (w', Inr [(''more'', JBool False)])
           \<and> script w' = [] \<and> clock w' \<le> 1704672000000000 + 32000000)
   \<and> (\<exists>w'. PagerdutyStream_get (Endpoint ''users'') []
               (world0 [\<lparr>outcome = Response 503 None, took = 1000000, draw = 0\<rparr>,
                        \<lparr>outcome = Response 429 None, took = 1000000, draw = 700000\<rparr>, answered] [])
             = (w', Inr [(''more'', JBool False)])
           \<and> script w' = [] \<and> clock w' \<le> 1704672000000000 + 4000000)
   \<and> (\<exists>e. retry_network 0 3 [refused] 120000000 = ([], 120000000, Inl e)
           \<and> (e = ConnectionError \<or> e = Timeout))
   \<and> (\<exists>st. retry_http 0 3 [slow_500] 120000000 = ([], 245000000, Inl (HTTPError st)))
   \<and> (\<exists>used. [slow_500, refused, answered] = used @ []
          \<and> run_shape (\<lambda>f. network_failure f \<or> http_failure f) used []
                (Inr [(''more'', JBool False)]))"
proof -
  let ?nf = "\<lparr>outcome = Response 404 None, took = 5, draw = 0\<rparr>"
  let ?to = "\<lparr>outcome = TimedOut, took = 30000000, draw = 400000\<rparr>"
  let ?s503 = "\<lparr>outcome = Response 503 None, took = 1000000, draw = 0\<rparr>"
  let ?s429 = "\<lparr>outcome = Response 429 None, took = 1000000, draw = 700000\<rparr>"
  have a: "PagerdutyStream_get (Endpoint ''users'') [] (world0 [?nf, answered] [])
     = ((world0 [?nf, answered] [])
          \<lparr>script := [answered], clock := 1704672000000005, requested := [(Endpoint ''users'', [])]\<rparr>,
        Inl (HTTPError 404))"
    using fetcher_classification [where w = "world0 [?nf, answered] []" and a = ?nf
            and rest = "[answered]" and u = "Endpoint ''users''" and ps = "[]",
            THEN conjunct2, THEN conjunct1, rule_format, of 404 None]
    by (simp add: world0_def)
  have b: "PagerdutyStream_get (Endpoint ''users'') [] (world0 [answered, refused] [])
     = ((world0 [answered, refused] [])
          \<lparr>script := [refused], clock := 1704672000000000, requested := [(Endpoint ''users'', [])]\<rparr>,
        Inr [(''more'', JBool False)])"
    using fetcher_classification [where w = "world0 [answered, refused] []" and a = answered
            and rest = "[refused]" and u = "Endpoint ''users''" and ps = "[]",
            THEN conjunct2, THEN conjunct2, THEN conjunct1, rule_format, of 200 "[(''more'', JBool False)]"]
    by (simp add: world0_def answered_def)
  have c: "\<exists>w'. PagerdutyStream_get (Endpoint ''users'') [] (world0 [refused, ?to, answered] [])
             = (w', Inr [(''more'', JBool False)])
           \<and> script w' = [] \<and> clock w' \<le> 1704672000000000 + 32000000"
    using fetcher_classification [where w = "world0 [refused, ?to, answered] []"
            and fs = "[refused, ?to]" and b = answered and rest = "[]" and d = "[(''more'', JBool False)]"
            and u = "Endpoint ''users''" and ps = "[]",
            THEN conjunct2, THEN conjunct2, THEN conjunct2, THEN conjunct1]
    by (simp add: world0_def answered_def refused_def network_failure_def get_once_def
                  raise_for_status_def max_time_def)
  have d: "\<exists>w'. PagerdutyStream_get (Endpoint ''users'') [] (world0 [?s503, ?s429, answered] [])
             = (w', Inr [(''more'', JBool False)])
           \<and> script w' = [] \<and> clock w' \<le> 1704672000000000 + 4000000"
    using fetcher_classification [where w = "world0 [?s503, ?s429, answered] []"
            and fs = "[?s503, ?s429]" and b = answered and rest = "[]" and d = "[(''more'', JBool False)]"
            and u = "Endpoint ''users''" and ps = "[]",
            THEN conjunct2, THEN conjunct2, THEN conjunct2, THEN conjunct1]
    by (simp add: world0_def answered_def http_failure_def retryable_status_def get_once_def
                  raise_for_status_def max_time_def)
  have e: "\<exists>e. retry_network 0 3 [refused] 120000000 = ([], 120000000, Inl e)
           \<and> (e = ConnectionError \<or> e = Timeout)"
    using fetcher_classification [where a = refused and now = 120000000 and start = 0 and n = 3
            and rest = "[]", THEN conjunct2, THEN conjunct2, THEN conjunct2, THEN conjunct2, THEN conjunct1]
    by (simp add: refused_def network_failure_def max_time_def)
  have f: "\<exists>st. retry_http 0 3 [slow_500] 120000000 = ([], 245000000, Inl (HTTPError st))"
    using fetcher_classification [where a = slow_500 and now = 120000000 and start = 0 and n = 3
            and rest = "[]", THEN conjunct2, THEN conjunct2, THEN conjunct2, THEN conjunct2, THEN conjunct2]
    by (simp add: slow_500_def http_failure_def retryable_status_def max_time_def)
  let ?run = "PagerdutyStream_get (Endpoint ''users'') [] (world0 [slow_500, refused, answered] [])"
  have s2: "retry_http 1704672000000000 1 [refused, answered] (1704672000000000 + 125500000)
              = ([], 1704672000000000 + 126000000, Inr [(''more'', JBool False)])"
    by (subst retry_http.simps)
       (simp add: Let_def get_once_def raise_for_status_def refused_def answered_def
                  next_wait_def next_draw_def max_time_def)
  have s1: "retry_http 1704672000000000 0 [slow_500, refused, answered] 1704672000000000
              = retry_http 1704672000000000 1 [refused, answered] (1704672000000000 + 125500000)"
    by (subst retry_http.simps)
       (simp add: Let_def get_once_def raise_for_status_def slow_500_def refused_def
                  is_fatal_code_def next_wait_def next_draw_def max_time_def)
  have run: "?run = (fst ?run, Inr [(''more'', JBool False)])" "script (fst ?run) = []"
    using s1 s2 by (simp_all add: PagerdutyStream_get_def world0_def)
  have g: "\<exists>used. [slow_500, refused, answered] = used @ []
          \<and> run_shape (\<lambda>f. network_failure f \<or> http_failure f) used []
                (Inr [(''more'', JBool False)])"
    using fetcher_classification [where w = "world0 [slow_500, refused, answered] []"
            and u = "Endpoint ''users''" and ps = "[]", THEN conjunct1, rule_format, OF run(1)] run(2)
    by (simp add: world0_def)
  from a b c d e f g show ?thesis by blast
qed


end
